theory Spec2Isabelle
  imports Complex_Main "HOL-Library.Multiset"
begin

section \<open>JavaScript values, strings and characters\<close>

text \<open>
  The model follows the stemmed version of \<open>NarrowMindModel\<close> (the second class of
  \<open>src/model.js\<close>) and the stand-alone \<open>stem\<close> utility.

  A JavaScript string is a sequence of UTF-16 code units. The model represents the strings
  whose code units lie in U+0000..U+00FF by \<^typ>\<open>string\<close>, one \<^typ>\<open>char\<close> per code unit;
  \<open>toLowerCase\<close>, the whitespace removed by \<open>trim\<close> and the classes \<open>\p{L}\<close> and \<open>\p{N}\<close>
  are those of Unicode on that range.

  A JavaScript number is an IEEE binary64 double. The operations on numbers are given twice.
  First in exact real arithmetic, where \<open>Math.log\<close> and \<open>Math.sqrt\<close> are \<^term>\<open>ln\<close> and
  \<^term>\<open>sqrt\<close>: this is the reading of the properties that are stated under exact
  arithmetic. Then once more with the arithmetic as a parameter; its instance \<open>exact\<close> gives
  the first reading back, its instance \<open>ieee\<close> rounds the result of every operation to
  binary64, as the code does.
\<close>

datatype jsval =
    JUndefined
  | JNull
  | JBool bool
  | JNumber real
  | JString string
  | JObject

fun typeof :: "jsval \<Rightarrow> string" where
  "typeof JUndefined = ''undefined''"
| "typeof JNull = ''object''"
| "typeof (JBool b) = ''boolean''"
| "typeof (JNumber r) = ''number''"
| "typeof (JString s) = ''string''"
| "typeof JObject = ''object''"

text \<open>The operator \<open>!v\<close>: true on the falsy values.\<close>

fun falsy :: "jsval \<Rightarrow> bool" where
  "falsy JUndefined = True"
| "falsy JNull = True"
| "falsy (JBool b) = (\<not> b)"
| "falsy (JNumber r) = (r = 0)"
| "falsy (JString s) = (s = [])"
| "falsy JObject = False"

definition code :: "char \<Rightarrow> nat" where
  "code c = of_char c"

text \<open>\<open>String.prototype.toLowerCase\<close> on U+0000..U+00FF: A-Z, and the Latin-1 capitals
  U+00C0..U+00DE without the multiplication sign U+00D7, move up by 32.\<close>

definition toLowerChar :: "char \<Rightarrow> char" where
  "toLowerChar c =
     (if (65 \<le> code c \<and> code c \<le> 90) \<or> (192 \<le> code c \<and> code c \<le> 222 \<and> code c \<noteq> 215)
      then char_of (code c + 32) else c)"

definition toLowerCase :: "string \<Rightarrow> string" where
  "toLowerCase s = map toLowerChar s"

text \<open>The class \<open>[\p{L}\p{N}]\<close> on U+0000..U+00FF.\<close>

definition isLetterOrNumber :: "char \<Rightarrow> bool" where
  "isLetterOrNumber c =
     ((48 \<le> code c \<and> code c \<le> 57) \<or> (65 \<le> code c \<and> code c \<le> 90) \<or>
      (97 \<le> code c \<and> code c \<le> 122) \<or>
      code c \<in> {170, 178, 179, 181, 185, 186, 188, 189, 190} \<or>
      (192 \<le> code c \<and> code c \<noteq> 215 \<and> code c \<noteq> 247))"

text \<open>The white space and line terminators that \<open>trim\<close> removes, on U+0000..U+00FF.\<close>

definition isSpace :: "char \<Rightarrow> bool" where
  "isSpace c = (code c \<in> {9, 10, 11, 12, 13, 32, 160})"

definition trim :: "string \<Rightarrow> string" where
  "trim s = rev (dropWhile isSpace (rev (dropWhile isSpace s)))"

text \<open>The class \<open>[.!?,"":;\n]\<close> of \<open>parseSentences\<close>.\<close>

definition isSentenceSep :: "char \<Rightarrow> bool" where
  "isSentenceSep c = (code c \<in> {46, 33, 63, 44, 34, 58, 59, 10})"

text \<open>\<open>s.split(/[C]+/)\<close> for a character class \<open>C\<close>: the pieces between the maximal runs
  of separators, the empty pieces at both ends included; the empty string gives one empty
  piece.\<close>

fun jsSplit :: "(char \<Rightarrow> bool) \<Rightarrow> string \<Rightarrow> string list" where
  "jsSplit sep [] = [[]]"
| "jsSplit sep (c # cs) =
     (if sep c then
        (case cs of
           [] \<Rightarrow> [[], []]
         | d # ds \<Rightarrow> if sep d then jsSplit sep cs else [] # jsSplit sep cs)
      else
        (case jsSplit sep cs of
           [] \<Rightarrow> [[c]]
         | p # ps \<Rightarrow> (c # p) # ps))"

text \<open>\<open>filter(Boolean)\<close> on an array of strings keeps the non-empty ones.\<close>

definition filterBoolean :: "string list \<Rightarrow> string list" where
  "filterBoolean ps = filter (\<lambda>p. p \<noteq> []) ps"

section \<open>Stemming\<close>

definition endsWith :: "string \<Rightarrow> string \<Rightarrow> bool" where
  "endsWith w suffix =
     (length suffix \<le> length w \<and> drop (length w - length suffix) w = suffix)"

text \<open>\<open>w.slice(0, -k)\<close> for \<open>k > 0\<close>.\<close>

definition sliceOff :: "string \<Rightarrow> nat \<Rightarrow> string" where
  "sliceOff w k = take (length w - k) w"

subsection \<open>\<open>stemWord\<close> of the model\<close>

definition suffixes :: "(string \<times> nat \<times> string option) list" where
  "suffixes =
     [(''ies'', 4, Some ''y''),
      (''es'', 4, None),
      (''s'', 3, None),
      (''ing'', 5, None),
      (''ed'', 4, None),
      (''er'', 4, None),
      (''est'', 5, None),
      (''ly'', 4, None),
      (''tion'', 6, None),
      (''ness'', 6, None),
      (''ment'', 6, None)]"

fun stemLoop :: "string \<Rightarrow> (string \<times> nat \<times> string option) list \<Rightarrow> string" where
  "stemLoop lowerWord [] = lowerWord"
| "stemLoop lowerWord ((suffix, minLength, replacement) # rest) =
     (if endsWith lowerWord suffix \<and> length lowerWord > minLength then
        (let stem = sliceOff lowerWord (length suffix)
         in case replacement of Some r \<Rightarrow> stem @ r | None \<Rightarrow> stem)
      else stemLoop lowerWord rest)"

definition stemWord :: "string \<Rightarrow> string" where
  "stemWord word =
     (if word = [] \<or> length word < 3 then word
      else stemLoop (toLowerCase word) suffixes)"

subsection \<open>The stand-alone \<open>stem\<close> utility\<close>

definition stemSuffixes :: "string list" where
  "stemSuffixes =
     [''ing'', ''ed'', ''er'', ''est'', ''ly'', ''tion'', ''sion'',
      ''ness'', ''ment'', ''able'', ''ible'', ''ful'', ''less'',
      ''s'', ''es'', ''ies'']"

fun stemScan :: "string \<Rightarrow> string list \<Rightarrow> string" where
  "stemScan lowerToken [] = lowerToken"
| "stemScan lowerToken (suffix # rest) =
     (if endsWith lowerToken suffix \<and> length lowerToken > length suffix + 2
      then sliceOff lowerToken (length suffix)
      else stemScan lowerToken rest)"

definition stem :: "string \<Rightarrow> string" where
  "stem token =
     (if token = [] \<or> length token < 3 then token
      else stemScan (toLowerCase token) stemSuffixes)"

subsection \<open>The stemmer as the specification words it\<close>

text \<open>The rule table of the specification and its reading: lower-case the word, take the
  first rule whose suffix ends the lower-cased word and whose minimum length the word
  strictly exceeds, strip the suffix and append the replacement if there is one; without a
  matching rule the lower-cased word is the result.\<close>

definition specRules :: "(string \<times> nat \<times> string option) list" where
  "specRules =
     [(''ies'', 4, Some ''y''), (''es'', 4, None), (''s'', 3, None), (''ing'', 5, None),
      (''ed'', 4, None), (''er'', 4, None), (''est'', 5, None), (''ly'', 4, None),
      (''tion'', 6, None), (''ness'', 6, None), (''ment'', 6, None)]"

definition ruleMatches :: "string \<Rightarrow> string \<times> nat \<times> string option \<Rightarrow> bool" where
  "ruleMatches lw rule = (endsWith lw (fst rule) \<and> fst (snd rule) < length lw)"

definition specStem :: "string \<Rightarrow> string" where
  "specStem w =
     (let lw = toLowerCase w in
      case find (ruleMatches lw) specRules of
        None \<Rightarrow> lw
      | Some (suffix, minLength, replacement) \<Rightarrow>
          take (length lw - length suffix) lw @ (case replacement of None \<Rightarrow> [] | Some r \<Rightarrow> r))"

section \<open>Tokenizer\<close>

definition parseTokens :: "jsval \<Rightarrow> string list" where
  "parseTokens text =
     (if falsy text \<or> typeof text \<noteq> ''string'' then []
      else case text of
             JString s \<Rightarrow> filterBoolean (jsSplit (\<lambda>c. \<not> isLetterOrNumber c) (trim s))
           | _ \<Rightarrow> [])"

definition parseTokensStemmed :: "jsval \<Rightarrow> string list" where
  "parseTokensStemmed text =
     (if falsy text \<or> typeof text \<noteq> ''string'' then []
      else map (\<lambda>token. stemWord (toLowerCase token)) (parseTokens text))"

definition parseSentences :: "jsval \<Rightarrow> string list" where
  "parseSentences text =
     (if falsy text \<or> typeof text \<noteq> ''string'' then []
      else case text of
             JString s \<Rightarrow> filterBoolean (map trim (jsSplit isSentenceSep s))
           | _ \<Rightarrow> [])"

section \<open>Term frequency and inverse document frequency\<close>

definition calculateTF :: "string \<Rightarrow> string list \<Rightarrow> real" where
  "calculateTF token wordList =
     (if wordList = [] then 0
      else real (length (filter (\<lambda>w. w = token) wordList)) / real (length wordList))"

text \<open>The document frequency: \<open>documents.filter(doc => doc.includes(token)).length\<close>.\<close>

definition docFreq :: "string \<Rightarrow> string list list \<Rightarrow> nat" where
  "docFreq token documents = length (filter (\<lambda>doc. token \<in> set doc) documents)"

definition calculateIDF :: "string \<Rightarrow> string list list \<Rightarrow> real" where
  "calculateIDF token documents =
     (if documents = [] then 0
      else (let N = length documents;
                df = docFreq token documents
            in ln (real (N + 1) / real (df + 1)) + 1))"

section \<open>The corpus model\<close>

record model =
  rawData :: jsval
  tokens :: "string list"
  sentences :: "string list"
  corpusDocs :: "string list list"
  idfCache :: "string \<rightharpoonup> real"

text \<open>\<open>[...new Set(xs)]\<close>: the distinct elements of \<open>xs\<close> in the order of their first
  occurrence.\<close>

fun setInsertAll :: "'a list \<Rightarrow> 'a list \<Rightarrow> 'a list" where
  "setInsertAll seen [] = seen"
| "setInsertAll seen (x # xs) =
     (if x \<in> set seen then setInsertAll seen xs else setInsertAll (seen @ [x]) xs)"

definition newSet :: "'a list \<Rightarrow> 'a list" where
  "newSet xs = setInsertAll [] xs"

definition precomputeIDF :: "string list list \<Rightarrow> (string \<rightharpoonup> real)" where
  "precomputeIDF docs =
     (let allTokens = newSet (concat docs)
      in foldl (\<lambda>idfMap token. idfMap(token \<mapsto> calculateIDF token docs)) Map.empty allTokens)"

definition newModel :: "jsval \<Rightarrow> model" where
  "newModel data =
     (let toks = parseTokens data;
          sents = parseSentences data;
          docs = map (\<lambda>s. parseTokensStemmed (JString s)) sents
      in \<lparr> rawData = data, tokens = toks, sentences = sents, corpusDocs = docs,
           idfCache = precomputeIDF docs \<rparr>)"

text \<open>\<open>getIDF\<close> reads the cache and, for a token that is not cached, computes the value
  and stores it: the result is the value together with the model after the call.\<close>

definition getIDF :: "model \<Rightarrow> string \<Rightarrow> real \<times> model" where
  "getIDF m token =
     (case idfCache m token of
        Some v \<Rightarrow> (v, m)
      | None \<Rightarrow>
          (let idf = calculateIDF token (corpusDocs m)
           in (idf, m\<lparr>idfCache := (idfCache m)(token \<mapsto> idf)\<rparr>)))"

section \<open>Similarity\<close>

text \<open>\<open>vocab.map(token => calculateTF(token, words) * this.getIDF(token))\<close>, the cache
  threaded through the calls of \<open>getIDF\<close> from left to right.\<close>

fun weights :: "model \<Rightarrow> string list \<Rightarrow> string list \<Rightarrow> real list \<times> model" where
  "weights m words [] = ([], m)"
| "weights m words (token # rest) =
     (case getIDF m token of
        (idf, m1) \<Rightarrow>
          (case weights m1 words rest of
             (ws, m2) \<Rightarrow> (calculateTF token words * idf # ws, m2)))"

text \<open>The two \<open>reduce\<close> calls; \<open>vec2[i]\<close> is read at the indices of \<open>vec1\<close>, and both vectors
  have the length of the vocabulary.\<close>

definition dotProduct :: "real list \<Rightarrow> real list \<Rightarrow> real" where
  "dotProduct vec1 vec2 = foldl (\<lambda>sum (val, v2). sum + val * v2) 0 (zip vec1 vec2)"

definition magnitude :: "real list \<Rightarrow> real" where
  "magnitude vec = sqrt (foldl (\<lambda>sum val. sum + val * val) 0 vec)"

definition calculateTFIDFSimilarity :: "model \<Rightarrow> jsval \<Rightarrow> jsval \<Rightarrow> real \<times> model" where
  "calculateTFIDFSimilarity m sentence1 sentence2 =
     (let words1 = parseTokensStemmed sentence1;
          words2 = parseTokensStemmed sentence2
      in if words1 = [] \<or> words2 = [] then (0, m)
         else
           (let vocab = newSet (words1 @ words2)
            in case weights m words1 vocab of
                 (vec1, m1) \<Rightarrow>
                   (case weights m1 words2 vocab of
                      (vec2, m2) \<Rightarrow>
                        (let dot = dotProduct vec1 vec2;
                             mag1 = magnitude vec1;
                             mag2 = magnitude vec2
                         in if mag1 = 0 \<or> mag2 = 0 then (0, m2)
                            else (dot / (mag1 * mag2), m2)))))"

section \<open>Ranking\<close>

fun rankLoop ::
  "model \<Rightarrow> jsval \<Rightarrow> string list \<Rightarrow> (string \<times> real) list \<Rightarrow> (string \<times> real) list \<times> model"
where
  "rankLoop m query [] sentenceRanks = (sentenceRanks, m)"
| "rankLoop m query (sentence # rest) sentenceRanks =
     (case calculateTFIDFSimilarity m query (JString sentence) of
        (similarity, m1) \<Rightarrow>
          rankLoop m1 query rest
            (if similarity > 0 then sentenceRanks @ [(sentence, similarity)]
             else sentenceRanks))"

text \<open>\<open>sentenceRanks.sort((a, b) => b[1] - a[1])\<close>: \<open>Array.prototype.sort\<close> is a stable sort,
  here by descending score.\<close>

definition sortByScore :: "(string \<times> real) list \<Rightarrow> (string \<times> real) list" where
  "sortByScore ranks = sort_key (\<lambda>p. - snd p) ranks"

definition rankSentences :: "model \<Rightarrow> jsval \<Rightarrow> int \<Rightarrow> (string \<times> real) list \<times> model" where
  "rankSentences m query topN =
     (if falsy query \<or> typeof query \<noteq> ''string'' then ([], m)
      else case rankLoop m query (sentences m) [] of
             (sentenceRanks, m1) \<Rightarrow>
               (let sorted = sortByScore sentenceRanks
                in (if topN > 0 then take (nat topN) sorted else sorted, m1)))"

section \<open>Whole-text term frequency\<close>

datatype error = TypeError

text \<open>\<open>token.toLowerCase()\<close> throws a \<open>TypeError\<close> when \<open>token\<close> is not a string.\<close>

definition getTF :: "model \<Rightarrow> jsval \<Rightarrow> error + real" where
  "getTF m token =
     (case token of
        JString t \<Rightarrow>
          (let stemmedToken = stemWord (toLowerCase t);
               stemmedTokens = parseTokensStemmed (rawData m)
           in Inr (calculateTF stemmedToken stemmedTokens))
      | _ \<Rightarrow> Inl TypeError)"

section \<open>The operations with the arithmetic as a parameter\<close>

text \<open>The five operations on numbers that the code uses: \<open>+\<close>, \<open>*\<close>, \<open>/\<close>, \<open>Math.sqrt\<close> and
  \<open>Math.log\<close>. The numbers themselves are reals in every instance: a finite double is a
  real number. The lengths and counts that the code divides, and \<open>N + 1\<close> and \<open>df + 1\<close>, are
  integers below \<open>2\<^sup>5\<^sup>3\<close> and so exact in every instance. Scores are compared as reals: the
  comparator \<open>b[1] - a[1]\<close> of the sort has the sign of the exact difference, in doubles
  too.\<close>

record arith =
  numAdd :: "real \<Rightarrow> real \<Rightarrow> real"
  numMul :: "real \<Rightarrow> real \<Rightarrow> real"
  numDiv :: "real \<Rightarrow> real \<Rightarrow> real"
  numSqrt :: "real \<Rightarrow> real"
  numLog :: "real \<Rightarrow> real"

definition exact :: arith where
  "exact =
     \<lparr> numAdd = (\<lambda>x y. x + y),
       numMul = (\<lambda>x y. x * y),
       numDiv = (\<lambda>x y. x / y),
       numSqrt = sqrt,
       numLog = ln \<rparr>"

text \<open>Rounding to binary64: to the nearest multiple of the unit in the last place, ties to
  the even multiple. The exponent is bounded below as in binary64, so that subnormal numbers
  are covered; overflow to \<open>Infinity\<close>, \<open>NaN\<close> and the sign of zero are not represented
  (the weights are at most \<open>ln (N + 1) + 1\<close>, and an array has fewer than \<open>2\<^sup>3\<^sup>2\<close> elements).
  Nor is a division by zero, which the code guards against: the empty word list and the zero
  magnitudes return 0 before the division, and \<open>df + 1\<close> is at least 1.\<close>

definition ulpExponent :: "real \<Rightarrow> int" where
  "ulpExponent x = max \<lfloor>log 2 \<bar>x\<bar>\<rfloor> (- 1022) - 52"

definition roundTiesToEven :: "real \<Rightarrow> int" where
  "roundTiesToEven q =
     (let n = \<lfloor>q\<rfloor>; r = q - of_int n
      in if r < 1 / 2 then n
         else if 1 / 2 < r then n + 1
         else if even n then n else n + 1)"

definition round64 :: "real \<Rightarrow> real" where
  "round64 x =
     (if x = 0 then 0
      else of_int (roundTiesToEven (x / 2 powr of_int (ulpExponent x))) *
           2 powr of_int (ulpExponent x))"

text \<open>Every operation of \<open>ieee\<close> is the exact operation followed by rounding, as IEEE 754
  requires of \<open>+\<close>, \<open>*\<close>, \<open>/\<close> and \<open>sqrt\<close>. \<open>Math.log\<close> is implementation-approximated;
  ECMAScript fixes \<open>Math.log(1) = +0\<close>, which is all the evaluations below use, and \<open>ieee\<close>
  takes the correctly rounded logarithm elsewhere.\<close>

definition ieee :: arith where
  "ieee =
     \<lparr> numAdd = (\<lambda>x y. round64 (x + y)),
       numMul = (\<lambda>x y. round64 (x * y)),
       numDiv = (\<lambda>x y. round64 (x / y)),
       numSqrt = (\<lambda>x. round64 (sqrt x)),
       numLog = (\<lambda>x. round64 (ln x)) \<rparr>"

text \<open>The operations of the model as above, each operation on numbers taken from the
  parameter.\<close>

definition calculateTF_in :: "arith \<Rightarrow> string \<Rightarrow> string list \<Rightarrow> real" where
  "calculateTF_in ar token wordList =
     (if wordList = [] then 0
      else numDiv ar (real (length (filter (\<lambda>w. w = token) wordList))) (real (length wordList)))"

definition calculateIDF_in :: "arith \<Rightarrow> string \<Rightarrow> string list list \<Rightarrow> real" where
  "calculateIDF_in ar token documents =
     (if documents = [] then 0
      else (let N = length documents;
                df = docFreq token documents
            in numAdd ar (numLog ar (numDiv ar (real (N + 1)) (real (df + 1)))) 1))"

definition precomputeIDF_in :: "arith \<Rightarrow> string list list \<Rightarrow> (string \<rightharpoonup> real)" where
  "precomputeIDF_in ar docs =
     (let allTokens = newSet (concat docs)
      in foldl (\<lambda>idfMap token. idfMap(token \<mapsto> calculateIDF_in ar token docs)) Map.empty allTokens)"

definition newModel_in :: "arith \<Rightarrow> jsval \<Rightarrow> model" where
  "newModel_in ar data =
     (let toks = parseTokens data;
          sents = parseSentences data;
          docs = map (\<lambda>s. parseTokensStemmed (JString s)) sents
      in \<lparr> rawData = data, tokens = toks, sentences = sents, corpusDocs = docs,
           idfCache = precomputeIDF_in ar docs \<rparr>)"

definition getIDF_in :: "arith \<Rightarrow> model \<Rightarrow> string \<Rightarrow> real \<times> model" where
  "getIDF_in ar m token =
     (case idfCache m token of
        Some v \<Rightarrow> (v, m)
      | None \<Rightarrow>
          (let idf = calculateIDF_in ar token (corpusDocs m)
           in (idf, m\<lparr>idfCache := (idfCache m)(token \<mapsto> idf)\<rparr>)))"

fun weights_in :: "arith \<Rightarrow> model \<Rightarrow> string list \<Rightarrow> string list \<Rightarrow> real list \<times> model" where
  "weights_in ar m words [] = ([], m)"
| "weights_in ar m words (token # rest) =
     (case getIDF_in ar m token of
        (idf, m1) \<Rightarrow>
          (case weights_in ar m1 words rest of
             (ws, m2) \<Rightarrow> (numMul ar (calculateTF_in ar token words) idf # ws, m2)))"

definition dotProduct_in :: "arith \<Rightarrow> real list \<Rightarrow> real list \<Rightarrow> real" where
  "dotProduct_in ar vec1 vec2 =
     foldl (\<lambda>sum (val, v2). numAdd ar sum (numMul ar val v2)) 0 (zip vec1 vec2)"

definition magnitude_in :: "arith \<Rightarrow> real list \<Rightarrow> real" where
  "magnitude_in ar vec = numSqrt ar (foldl (\<lambda>sum val. numAdd ar sum (numMul ar val val)) 0 vec)"

definition calculateTFIDFSimilarity_in :: "arith \<Rightarrow> model \<Rightarrow> jsval \<Rightarrow> jsval \<Rightarrow> real \<times> model" where
  "calculateTFIDFSimilarity_in ar m sentence1 sentence2 =
     (let words1 = parseTokensStemmed sentence1;
          words2 = parseTokensStemmed sentence2
      in if words1 = [] \<or> words2 = [] then (0, m)
         else
           (let vocab = newSet (words1 @ words2)
            in case weights_in ar m words1 vocab of
                 (vec1, m1) \<Rightarrow>
                   (case weights_in ar m1 words2 vocab of
                      (vec2, m2) \<Rightarrow>
                        (let dot = dotProduct_in ar vec1 vec2;
                             mag1 = magnitude_in ar vec1;
                             mag2 = magnitude_in ar vec2
                         in if mag1 = 0 \<or> mag2 = 0 then (0, m2)
                            else (numDiv ar dot (numMul ar mag1 mag2), m2)))))"

fun rankLoop_in ::
  "arith \<Rightarrow> model \<Rightarrow> jsval \<Rightarrow> string list \<Rightarrow> (string \<times> real) list \<Rightarrow> (string \<times> real) list \<times> model"
where
  "rankLoop_in ar m query [] sentenceRanks = (sentenceRanks, m)"
| "rankLoop_in ar m query (sentence # rest) sentenceRanks =
     (case calculateTFIDFSimilarity_in ar m query (JString sentence) of
        (similarity, m1) \<Rightarrow>
          rankLoop_in ar m1 query rest
            (if similarity > 0 then sentenceRanks @ [(sentence, similarity)]
             else sentenceRanks))"

definition rankSentences_in :: "arith \<Rightarrow> model \<Rightarrow> jsval \<Rightarrow> int \<Rightarrow> (string \<times> real) list \<times> model" where
  "rankSentences_in ar m query topN =
     (if falsy query \<or> typeof query \<noteq> ''string'' then ([], m)
      else case rankLoop_in ar m query (sentences m) [] of
             (sentenceRanks, m1) \<Rightarrow>
               (let sorted = sortByScore sentenceRanks
                in (if topN > 0 then take (nat topN) sorted else sorted, m1)))"

text \<open>The value \<open>getIDF\<close> returns, the sentences with a positive similarity to a query in
  the order of the corpus, and the cosine without the cache, for a given arithmetic.\<close>

definition effIDF_in :: "arith \<Rightarrow> model \<Rightarrow> string \<Rightarrow> real" where
  "effIDF_in ar m token =
     (case idfCache m token of Some v \<Rightarrow> v | None \<Rightarrow> calculateIDF_in ar token (corpusDocs m))"

definition positiveScores :: "arith \<Rightarrow> model \<Rightarrow> jsval \<Rightarrow> (string \<times> real) list" where
  "positiveScores ar m query =
     filter (\<lambda>p. 0 < snd p)
       (map (\<lambda>sentence. (sentence, fst (calculateTFIDFSimilarity_in ar m query (JString sentence))))
          (sentences m))"

definition cosine_in :: "arith \<Rightarrow> (string \<Rightarrow> real) \<Rightarrow> string list \<Rightarrow> string list \<Rightarrow> real" where
  "cosine_in ar idf words1 words2 =
     (if words1 = [] \<or> words2 = [] then 0
      else
        (let vocab = newSet (words1 @ words2);
             vec1 = map (\<lambda>token. numMul ar (calculateTF_in ar token words1) (idf token)) vocab;
             vec2 = map (\<lambda>token. numMul ar (calculateTF_in ar token words2) (idf token)) vocab
         in if magnitude_in ar vec1 = 0 \<or> magnitude_in ar vec2 = 0 then 0
            else numDiv ar (dotProduct_in ar vec1 vec2)
                   (numMul ar (magnitude_in ar vec1) (magnitude_in ar vec2))))"

section \<open>Notions used to state the properties\<close>

text \<open>The value that \<open>getIDF\<close> returns for a token in a given model: the cached value, or
  the computed one for a token that is not cached.\<close>

definition effIDF :: "model \<Rightarrow> string \<Rightarrow> real" where
  "effIDF m token =
     (case idfCache m token of Some v \<Rightarrow> v | None \<Rightarrow> calculateIDF token (corpusDocs m))"

text \<open>The invariant of the cache: every cached value is the value of the formula on the
  documents of the model. The constructor establishes it and every operation keeps it.\<close>

definition cacheConsistent :: "model \<Rightarrow> bool" where
  "cacheConsistent m =
     (\<forall>token v. idfCache m token = Some v \<longrightarrow> v = calculateIDF token (corpusDocs m))"

text \<open>The states of a model: the constructor builds the first one, and each method that
  touches the cache leads from one to the next.\<close>

inductive reachable :: "model \<Rightarrow> bool" where
  constructed: "reachable (newModel data)"
| after_getIDF: "reachable m \<Longrightarrow> reachable (snd (getIDF m token))"
| after_similarity:
    "reachable m \<Longrightarrow> reachable (snd (calculateTFIDFSimilarity m sentence1 sentence2))"
| after_rank: "reachable m \<Longrightarrow> reachable (snd (rankSentences m query topN))"

text \<open>What an operation may do to the model: fill the cache, keeping the entries that are
  there, the values later calls of \<open>getIDF\<close> return, and every other field.\<close>

definition cacheFill :: "model \<Rightarrow> model \<Rightarrow> bool" where
  "cacheFill m m' =
     (rawData m' = rawData m \<and> tokens m' = tokens m \<and> sentences m' = sentences m \<and>
      corpusDocs m' = corpusDocs m \<and> idfCache m \<subseteq>\<^sub>m idfCache m' \<and> effIDF m' = effIDF m)"

text \<open>The TF-IDF vector of a token list over a vocabulary, for a given IDF function, and the
  cosine of two token lists, without the cache.\<close>

definition tfidfVector :: "(string \<Rightarrow> real) \<Rightarrow> string list \<Rightarrow> string list \<Rightarrow> real list" where
  "tfidfVector idf words vocab = map (\<lambda>token. calculateTF token words * idf token) vocab"

definition cosine :: "(string \<Rightarrow> real) \<Rightarrow> string list \<Rightarrow> string list \<Rightarrow> real" where
  "cosine idf words1 words2 =
     (if words1 = [] \<or> words2 = [] then 0
      else
        (let vocab = newSet (words1 @ words2);
             vec1 = tfidfVector idf words1 vocab;
             vec2 = tfidfVector idf words2 vocab
         in if magnitude vec1 = 0 \<or> magnitude vec2 = 0 then 0
            else dotProduct vec1 vec2 / (magnitude vec1 * magnitude vec2)))"

text \<open>The full filtered, sorted sequence of a query: every sentence of the model with its
  similarity to the query, the pairs with a positive score kept, sorted by descending
  score.\<close>

definition scoredSentences :: "model \<Rightarrow> jsval \<Rightarrow> (string \<times> real) list" where
  "scoredSentences m query =
     sortByScore
       (filter (\<lambda>p. 0 < snd p)
          (map (\<lambda>sentence. (sentence, fst (calculateTFIDFSimilarity m query (JString sentence))))
             (sentences m)))"

text \<open>The whole-text term frequency as the specification words it: the count of the stemmed,
  lower-cased token among the stemmed tokens of the entire text, divided by their number.\<close>

definition specWholeTextTF :: "jsval \<Rightarrow> string \<Rightarrow> real" where
  "specWholeTextTF text t =
     (let stream = map (\<lambda>w. stemWord (toLowerCase w)) (parseTokens text)
      in real (count_list stream (stemWord (toLowerCase t))) / real (length stream))"

text \<open>The corpus of the end-to-end example of the specification.\<close>

definition exampleModel :: model where
  "exampleModel = newModel (JString ''The cat sat. The dog ran fast.'')"

text \<open>Three more corpora: one on which the rounding of doubles takes the similarity above 1,
  one on which it takes the similarity of a sentence with itself below 1, and one with two
  sentences that the ranking has to reorder.\<close>

definition roundingExample :: model where
  "roundingExample = newModel_in ieee (JString ''a a b c'')"


definition rankingExample :: model where
  "rankingExample = newModel_in exact (JString ''cat dog. cat.'')"

section \<open>Properties of the stemmer\<close>

lemma length_toLowerCase: "length (toLowerCase w) = length w"
  by (simp add: toLowerCase_def)

text \<open>The loop over the table returns at the first rule that matches.\<close>

lemma stemLoop_find:
  "stemLoop lw rules =
     (case find (ruleMatches lw) rules of
        None \<Rightarrow> lw
      | Some (suffix, minLength, replacement) \<Rightarrow>
          take (length lw - length suffix) lw @ (case replacement of None \<Rightarrow> [] | Some r \<Rightarrow> r))"
proof (induction rules)
  case Nil
  show ?case by simp
next
  case (Cons rule rules)
  obtain suffix minLength replacement where r: "rule = (suffix, minLength, replacement)"
    by (cases rule) auto
  show ?case
    using Cons.IH by (simp add: r ruleMatches_def sliceOff_def split: option.splits)
qed

lemma suffixes_specRules: "suffixes = specRules"
  by (simp add: suffixes_def specRules_def)

lemma short_word_no_rule:
  assumes "length lw < 3"
  shows "find (ruleMatches lw) specRules = None"
proof -
  have "\<forall>rule \<in> set specRules. 3 \<le> fst (snd rule)"
    by (simp add: specRules_def)
  with assms have "\<forall>rule \<in> set specRules. \<not> ruleMatches lw rule"
    by (auto simp: ruleMatches_def)
  then show ?thesis
    by (simp add: find_None_iff)
qed

lemma stemWord_specStem:
  assumes "3 \<le> length w \<or> toLowerCase w = w"
  shows "stemWord w = specStem w"
proof (cases "length w < 3")
  case True
  with assms have lw: "toLowerCase w = w" by auto
  from True have "find (ruleMatches w) specRules = None"
    by (rule short_word_no_rule)
  then have "specStem w = w"
    by (simp add: specStem_def lw)
  moreover from True have "stemWord w = w"
    by (simp add: stemWord_def)
  ultimately show ?thesis by simp
next
  case False
  then have "stemWord w = stemLoop (toLowerCase w) specRules"
    by (auto simp: stemWord_def suffixes_specRules)
  then show ?thesis
    by (simp add: stemLoop_find specStem_def Let_def)
qed

lemma stemWord_running: "stemWord ''running'' = ''runn''"
  by code_simp

lemma stemWord_cats: "stemWord ''cats'' = ''cat''"
  by code_simp

lemma stemWord_flies: "stemWord ''flies'' = ''fly''"
  by code_simp

lemma stemWord_faster: "stemWord ''faster'' = ''fast''"
  by code_simp

text \<open>The stand-alone \<open>stem\<close> utility has another table, in which \<open>s\<close> comes before \<open>es\<close>
  and \<open>ies\<close>; the model does not call it.\<close>

lemma stem_flies: "stem ''flies'' = ''flie''"
  by code_simp

text \<open>
  Claim C3, as stated: for every word, \<open>stemWord\<close> is the rule table of the specification
  applied to the lower-cased word, the lower-cased word being returned when no rule matches.
  It fails on a word shorter than three characters with a capital letter: no rule matches,
  and \<open>stemWord\<close> returns the word as it is, not lower-cased.
\<close>

theorem stemWord_rule_table_counterexample:
  "stemWord ''Ox'' = ''Ox'' \<and> specStem ''Ox'' = ''ox'' \<and> stemWord ''Ox'' \<noteq> specStem ''Ox''"
  by code_simp

text \<open>
  Claim C3, amended: for every word that has at least three characters or is already
  lower-case, \<open>stemWord\<close> is the ordered rule table of the specification applied to the
  lower-cased word (first matching rule wins, the lower-cased word is returned when no rule
  matches); and \<open>running\<close>, \<open>cats\<close>, \<open>flies\<close>, \<open>faster\<close> stem to \<open>runn\<close>, \<open>cat\<close>, \<open>fly\<close>,
  \<open>fast\<close>.
\<close>

theorem stemWord_rule_table:
  "(3 \<le> length w \<or> toLowerCase w = w \<longrightarrow> stemWord w = specStem w) \<and>
   stemWord ''running'' = ''runn'' \<and> stemWord ''cats'' = ''cat'' \<and>
   stemWord ''flies'' = ''fly'' \<and> stemWord ''faster'' = ''fast''"
  using stemWord_specStem [of w] stemWord_running stemWord_cats stemWord_flies stemWord_faster
  by blast

theorem stemWord_rule_table_witness:
  "3 \<le> length ''Happiness'' \<and> stemWord ''Happiness'' = specStem ''Happiness'' \<and>
   specStem ''Happiness'' = ''happines''"
proof -
  have h: "3 \<le> length ''Happiness''" by simp
  have v: "specStem ''Happiness'' = ''happines''" by code_simp
  from h v stemWord_rule_table [of "''Happiness''"] show ?thesis by blast
qed

text \<open>
  Claim C8, as stated: for every word of length less than 3, the stem is the lower-cased
  word. It fails on \<open>AB\<close>: both stemmers return a short word before lower-casing it.
\<close>

theorem stem_short_word_counterexample:
  "length ''AB'' < 3 \<and> stemWord ''AB'' \<noteq> toLowerCase ''AB'' \<and> stem ''AB'' \<noteq> toLowerCase ''AB''"
  by code_simp

text \<open>
  Claim C8, amended: for every word of length less than 3, \<open>stemWord\<close> and \<open>stem\<close> return the
  word itself, unchanged; the result is the lower-cased word exactly when the word is
  already lower-case.
\<close>

theorem stem_short_word:
  "length w < 3 \<Longrightarrow>
     stemWord w = w \<and> stem w = w \<and> (stemWord w = toLowerCase w \<longleftrightarrow> toLowerCase w = w)"
  by (auto simp: stemWord_def stem_def)

theorem stem_short_word_witness:
  "length ''AB'' < 3 \<and> stemWord ''AB'' = ''AB'' \<and> stem ''AB'' = ''AB''"
  using stem_short_word [of "''AB''"] by simp

section \<open>Properties of the inverse document frequency\<close>

lemma docFreq_le: "docFreq t docs \<le> length docs"
  by (simp add: docFreq_def)

lemma calculateIDF_nonempty:
  "docs \<noteq> [] \<Longrightarrow>
     calculateIDF t docs = ln (real (length docs + 1) / real (docFreq t docs + 1)) + 1"
  by (simp add: calculateIDF_def Let_def)

lemma calculateIDF_ge_1:
  assumes "docs \<noteq> []"
  shows "1 \<le> calculateIDF t docs"
proof -
  have "real (docFreq t docs + 1) \<le> real (length docs + 1)"
    using docFreq_le [of t docs] by simp
  then have "1 \<le> real (length docs + 1) / real (docFreq t docs + 1)"
    by (simp add: le_divide_eq)
  then have "0 \<le> ln (real (length docs + 1) / real (docFreq t docs + 1))"
    by (rule ln_ge_zero)
  with assms show ?thesis by (simp add: calculateIDF_nonempty)
qed

lemma calculateIDF_nonneg: "0 \<le> calculateIDF t docs"
proof (cases "docs = []")
  case True
  then show ?thesis by (simp add: calculateIDF_def)
next
  case False
  from calculateIDF_ge_1 [OF False, of t] show ?thesis by simp
qed

lemma calculateIDF_upper:
  assumes "docs \<noteq> []"
  shows "calculateIDF t docs \<le> ln (real (length docs + 1)) + 1"
proof -
  have le: "real (length docs + 1) / real (docFreq t docs + 1) \<le> real (length docs + 1)"
    by (simp add: divide_le_eq mult_le_cancel_left1)
  have pos: "0 < real (length docs + 1) / real (docFreq t docs + 1)"
    by simp
  from le pos
  have "ln (real (length docs + 1) / real (docFreq t docs + 1)) \<le> ln (real (length docs + 1))"
    by (rule ln_mono)
  with assms show ?thesis by (simp add: calculateIDF_nonempty)
qed

lemma calculateIDF_antimono:
  assumes len: "length docs1 = length docs2"
    and df: "docFreq t1 docs1 \<le> docFreq t2 docs2"
  shows "calculateIDF t2 docs2 \<le> calculateIDF t1 docs1"
proof (cases "docs1 = []")
  case True
  with len show ?thesis by (simp add: calculateIDF_def)
next
  case False
  with len have ne2: "docs2 \<noteq> []" by auto
  have le: "real (length docs2 + 1) / real (docFreq t2 docs2 + 1)
          \<le> real (length docs1 + 1) / real (docFreq t1 docs1 + 1)"
    using df len by (simp add: frac_le)
  have pos2: "0 < real (length docs2 + 1) / real (docFreq t2 docs2 + 1)"
    by simp
  from le pos2
  have "ln (real (length docs2 + 1) / real (docFreq t2 docs2 + 1))
          \<le> ln (real (length docs1 + 1) / real (docFreq t1 docs1 + 1))"
    by (rule ln_mono)
  then show ?thesis
    using False ne2 by (simp add: calculateIDF_nonempty)
qed

text \<open>
  Claim C4, as stated: for every token and every corpus, the IDF is positive. It fails on
  the corpus without documents, where \<open>calculateIDF\<close> returns 0 before the formula.
\<close>

theorem calculateIDF_bounds_counterexample:
  "\<not> 0 < calculateIDF ''cat'' []"
  by (simp add: calculateIDF_def)

text \<open>
  Claim C4, amended: for every token and every corpus of \<open>N \<ge> 1\<close> documents, \<open>calculateIDF\<close>
  is \<open>ln ((N + 1) / (df + 1)) + 1\<close>, it is positive and at most \<open>ln (N + 1) + 1\<close>; for every
  \<open>N\<close>, the IDF does not increase when the document frequency increases with \<open>N\<close> fixed; on
  the corpus without documents the IDF is 0.
\<close>

theorem calculateIDF_bounds:
  "(docs \<noteq> [] \<longrightarrow>
      calculateIDF t docs = ln (real (length docs + 1) / real (docFreq t docs + 1)) + 1 \<and>
      0 < calculateIDF t docs \<and>
      calculateIDF t docs \<le> ln (real (length docs + 1)) + 1) \<and>
   (length docs = length docs' \<and> docFreq t docs \<le> docFreq t' docs' \<longrightarrow>
      calculateIDF t' docs' \<le> calculateIDF t docs) \<and>
   (docs = [] \<longrightarrow> calculateIDF t docs = 0)"
proof (intro conjI impI)
  assume ne: "docs \<noteq> []"
  from ne show "calculateIDF t docs = ln (real (length docs + 1) / real (docFreq t docs + 1)) + 1"
    by (rule calculateIDF_nonempty)
  from calculateIDF_ge_1 [OF ne, of t] show "0 < calculateIDF t docs"
    by simp
  from ne show "calculateIDF t docs \<le> ln (real (length docs + 1)) + 1"
    by (rule calculateIDF_upper)
next
  assume "length docs = length docs' \<and> docFreq t docs \<le> docFreq t' docs'"
  then show "calculateIDF t' docs' \<le> calculateIDF t docs"
    by (simp add: calculateIDF_antimono)
next
  assume "docs = []"
  then show "calculateIDF t docs = 0"
    by (simp add: calculateIDF_def)
qed

theorem calculateIDF_bounds_witness:
  "[[''the'', ''cat''], [''the'', ''dog'']] \<noteq> [] \<and>
   docFreq ''cat'' [[''the'', ''cat''], [''the'', ''dog'']] \<le>
     docFreq ''the'' [[''the'', ''cat''], [''the'', ''dog'']] \<and>
   calculateIDF ''cat'' [[''the'', ''cat''], [''the'', ''dog'']] = ln (3 / 2) + 1 \<and>
   0 < calculateIDF ''cat'' [[''the'', ''cat''], [''the'', ''dog'']] \<and>
   calculateIDF ''the'' [[''the'', ''cat''], [''the'', ''dog'']]
     \<le> calculateIDF ''cat'' [[''the'', ''cat''], [''the'', ''dog'']]"
  using calculateIDF_bounds [of "[[''the'', ''cat''], [''the'', ''dog'']]" "''cat''"
          "[[''the'', ''cat''], [''the'', ''dog'']]" "''the''"]
  by (simp add: docFreq_def)

section \<open>The cache of IDF values\<close>

text \<open>An operation only fills the cache: the value \<open>getIDF\<close> returns for a token is the
  same before and after, and so is every result computed from these values.\<close>

lemma effIDF_getIDF: "fst (getIDF m t) = effIDF m t"
  by (simp add: getIDF_def effIDF_def Let_def split: option.splits)

lemma cacheFill_refl: "cacheFill m m"
  by (simp add: cacheFill_def)

lemma cacheFill_trans: "cacheFill m m1 \<Longrightarrow> cacheFill m1 m2 \<Longrightarrow> cacheFill m m2"
  by (auto simp: cacheFill_def intro: map_le_trans)

lemma cacheFill_getIDF: "cacheFill m (snd (getIDF m t))"
  by (auto simp: getIDF_def cacheFill_def effIDF_def Let_def map_le_def fun_eq_iff split: option.splits)

lemma weights_fst: "fst (weights m words vocab) = tfidfVector (effIDF m) words vocab"
proof (induction vocab arbitrary: m)
  case Nil
  show ?case by (simp add: tfidfVector_def)
next
  case (Cons t ts)
  obtain idf m1 where g: "getIDF m t = (idf, m1)" by (cases "getIDF m t")
  from g have idf: "idf = effIDF m t" using effIDF_getIDF [of m t] by simp
  from g have "cacheFill m m1" using cacheFill_getIDF [of m t] by simp
  then have eff: "effIDF m1 = effIDF m" by (simp add: cacheFill_def)
  obtain ws m2 where w: "weights m1 words ts = (ws, m2)" by (cases "weights m1 words ts")
  from w Cons.IH [of m1] have "ws = tfidfVector (effIDF m) words ts" by (simp add: eff)
  with g w idf show ?case by (simp add: tfidfVector_def)
qed

lemma weights_snd: "cacheFill m (snd (weights m words vocab))"
proof (induction vocab arbitrary: m)
  case Nil
  show ?case by (simp add: cacheFill_refl)
next
  case (Cons t ts)
  obtain idf m1 where g: "getIDF m t = (idf, m1)" by (cases "getIDF m t")
  from g have f1: "cacheFill m m1" using cacheFill_getIDF [of m t] by simp
  obtain ws m2 where w: "weights m1 words ts = (ws, m2)" by (cases "weights m1 words ts")
  from w Cons.IH [of m1] have "cacheFill m1 m2" by simp
  with f1 have "cacheFill m m2" by (rule cacheFill_trans)
  with g w show ?case by simp
qed

lemma similarity_fst:
  "fst (calculateTFIDFSimilarity m s1 s2) =
     cosine (effIDF m) (parseTokensStemmed s1) (parseTokensStemmed s2)"
proof -
  let ?w1 = "parseTokensStemmed s1" and ?w2 = "parseTokensStemmed s2"
  let ?vocab = "newSet (?w1 @ ?w2)"
  obtain vec1 m1 where a: "weights m ?w1 ?vocab = (vec1, m1)" by (cases "weights m ?w1 ?vocab")
  obtain vec2 m2 where b: "weights m1 ?w2 ?vocab = (vec2, m2)" by (cases "weights m1 ?w2 ?vocab")
  from a have v1: "vec1 = tfidfVector (effIDF m) ?w1 ?vocab"
    using weights_fst [of m ?w1 ?vocab] by simp
  from a have "cacheFill m m1" using weights_snd [of m ?w1 ?vocab] by simp
  then have "effIDF m1 = effIDF m" by (simp add: cacheFill_def)
  with b have v2: "vec2 = tfidfVector (effIDF m) ?w2 ?vocab"
    using weights_fst [of m1 ?w2 ?vocab] by simp
  show ?thesis
    by (simp add: calculateTFIDFSimilarity_def cosine_def Let_def a b v1 [symmetric] v2 [symmetric])
qed

lemma similarity_snd: "cacheFill m (snd (calculateTFIDFSimilarity m s1 s2))"
proof -
  let ?w1 = "parseTokensStemmed s1" and ?w2 = "parseTokensStemmed s2"
  let ?vocab = "newSet (?w1 @ ?w2)"
  obtain vec1 m1 where a: "weights m ?w1 ?vocab = (vec1, m1)" by (cases "weights m ?w1 ?vocab")
  obtain vec2 m2 where b: "weights m1 ?w2 ?vocab = (vec2, m2)" by (cases "weights m1 ?w2 ?vocab")
  from a have "cacheFill m m1" using weights_snd [of m ?w1 ?vocab] by simp
  moreover from b have "cacheFill m1 m2" using weights_snd [of m1 ?w2 ?vocab] by simp
  ultimately have "cacheFill m m2" by (rule cacheFill_trans)
  then show ?thesis
    by (simp add: calculateTFIDFSimilarity_def Let_def a b cacheFill_refl)
qed

lemma rankLoop_fst:
  "fst (rankLoop m q ss acc) =
     acc @ filter (\<lambda>p. 0 < snd p)
             (map (\<lambda>s. (s, cosine (effIDF m) (parseTokensStemmed q) (parseTokensStemmed (JString s)))) ss)"
proof (induction ss arbitrary: m acc)
  case Nil
  show ?case by simp
next
  case (Cons s ss)
  obtain sim m1 where c: "calculateTFIDFSimilarity m q (JString s) = (sim, m1)"
    by (cases "calculateTFIDFSimilarity m q (JString s)")
  from c have sim: "sim = cosine (effIDF m) (parseTokensStemmed q) (parseTokensStemmed (JString s))"
    using similarity_fst [of m q "JString s"] by simp
  from c have "cacheFill m m1" using similarity_snd [of m q "JString s"] by simp
  then have eff: "effIDF m1 = effIDF m" by (simp add: cacheFill_def)
  show ?case
    by (simp add: c Cons.IH eff sim [symmetric])
qed

lemma rankLoop_snd: "cacheFill m (snd (rankLoop m q ss acc))"
proof (induction ss arbitrary: m acc)
  case Nil
  show ?case by (simp add: cacheFill_refl)
next
  case (Cons s ss)
  obtain sim m1 where c: "calculateTFIDFSimilarity m q (JString s) = (sim, m1)"
    by (cases "calculateTFIDFSimilarity m q (JString s)")
  from c have f1: "cacheFill m m1" using similarity_snd [of m q "JString s"] by simp
  have "cacheFill m1 (snd (rankLoop m1 q ss (if 0 < sim then acc @ [(s, sim)] else acc)))"
    by (rule Cons.IH)
  with f1 have "cacheFill m (snd (rankLoop m1 q ss (if 0 < sim then acc @ [(s, sim)] else acc)))"
    by (rule cacheFill_trans)
  then show ?case by (simp add: c)
qed

lemma parseTokensStemmed_invalid:
  "falsy q \<or> typeof q \<noteq> ''string'' \<Longrightarrow> parseTokensStemmed q = []"
  by (simp add: parseTokensStemmed_def)

lemma cosine_Nil: "cosine idf [] ws = 0"
  by (simp add: cosine_def)

lemma scoredSentences_eq:
  "scoredSentences m q =
     sortByScore (filter (\<lambda>p. 0 < snd p)
       (map (\<lambda>s. (s, cosine (effIDF m) (parseTokensStemmed q) (parseTokensStemmed (JString s))))
          (sentences m)))"
  by (simp add: scoredSentences_def similarity_fst)

lemma scoredSentences_invalid:
  assumes "falsy q \<or> typeof q \<noteq> ''string''"
  shows "scoredSentences m q = []"
  by (simp add: scoredSentences_eq parseTokensStemmed_invalid [OF assms] cosine_Nil sortByScore_def)

lemma rankSentences_fst:
  "fst (rankSentences m q topN) =
     (if 0 < topN then take (nat topN) (scoredSentences m q) else scoredSentences m q)"
proof (cases "falsy q \<or> typeof q \<noteq> ''string''")
  case True
  then show ?thesis
    by (simp add: rankSentences_def scoredSentences_invalid)
next
  case False
  obtain ranks m1 where r: "rankLoop m q (sentences m) [] = (ranks, m1)"
    by (cases "rankLoop m q (sentences m) []")
  from r have "ranks = filter (\<lambda>p. 0 < snd p)
       (map (\<lambda>s. (s, cosine (effIDF m) (parseTokensStemmed q) (parseTokensStemmed (JString s))))
          (sentences m))"
    using rankLoop_fst [of m q "sentences m" "[]"] by simp
  then have "sortByScore ranks = scoredSentences m q"
    by (simp add: scoredSentences_eq)
  with False r show ?thesis
    by (simp add: rankSentences_def Let_def)
qed

lemma rankSentences_snd: "cacheFill m (snd (rankSentences m q topN))"
proof (cases "falsy q \<or> typeof q \<noteq> ''string''")
  case True
  then show ?thesis by (simp add: rankSentences_def cacheFill_refl)
next
  case False
  obtain ranks m1 where r: "rankLoop m q (sentences m) [] = (ranks, m1)"
    by (cases "rankLoop m q (sentences m) []")
  from r have "cacheFill m m1" using rankLoop_snd [of m q "sentences m" "[]"] by simp
  with False r show ?thesis by (simp add: rankSentences_def Let_def)
qed

section \<open>Properties of the ranking\<close>

lemma rankSentences_depends:
  assumes "effIDF m' = effIDF m" and "sentences m' = sentences m"
  shows "fst (rankSentences m' q n) = fst (rankSentences m q n)"
  using assms by (simp add: rankSentences_fst scoredSentences_eq)

lemma set_sortByScore: "set (sortByScore xs) = set xs"
  by (simp add: sortByScore_def)

lemma sorted_sortByScore: "sorted_wrt (\<lambda>a b. snd b \<le> snd a) (sortByScore xs)"
proof -
  have "sorted (map (\<lambda>p. - snd p) (sortByScore xs))"
    unfolding sortByScore_def by (rule sorted_sort_key)
  then show ?thesis
    by (simp add: sorted_map)
qed

text \<open>
  Claim C9: for every corpus and every \<open>topN\<close>, \<open>rankSentences\<close> on a query that is not a
  string, or on the empty string, returns the empty sequence; no error is raised (the result
  is a value) and the model is left as it was.
\<close>

theorem rankSentences_invalid_query:
  "typeof q \<noteq> ''string'' \<or> q = JString [] \<Longrightarrow> rankSentences m q topN = ([], m)"
  by (auto simp: rankSentences_def)

section \<open>Repeated calls of \<open>getIDF\<close>\<close>

lemma getIDF_absent:
  "idfCache m t = None \<Longrightarrow>
     getIDF m t = (calculateIDF t (corpusDocs m),
                   m\<lparr>idfCache := (idfCache m)(t \<mapsto> calculateIDF t (corpusDocs m))\<rparr>)"
  by (simp add: getIDF_def Let_def)

lemma getIDF_cached: "idfCache m t = Some v \<Longrightarrow> getIDF m t = (v, m)"
  by (simp add: getIDF_def)

lemma cacheFill_kept:
  assumes "cacheFill m m'" and "idfCache m k = Some v"
  shows "idfCache m' k = Some v"
proof -
  from assms(1) have "idfCache m \<subseteq>\<^sub>m idfCache m'"
    by (simp add: cacheFill_def)
  moreover from assms(2) have "k \<in> dom (idfCache m)"
    by (simp add: domI)
  ultimately have "idfCache m k = idfCache m' k"
    by (simp add: map_le_def)
  with assms(2) show ?thesis by simp
qed

text \<open>
  Claim C5: for a token that is not in the cache, two calls of \<open>getIDF\<close> in a row return
  the same value, the second call changes nothing, every entry cached before is kept with
  its value, the documents and sentences of the corpus are unchanged, and every later call
  of \<open>rankSentences\<close> returns what it would have returned without the two calls.
\<close>

theorem getIDF_idempotent:
  assumes absent: "idfCache m t = None"
    and first: "getIDF m t = (v1, m1)"
    and second: "getIDF m1 t = (v2, m2)"
  shows "v2 = v1 \<and> m2 = m1 \<and>
     (\<forall>k v. idfCache m k = Some v \<longrightarrow> idfCache m1 k = Some v \<and> idfCache m2 k = Some v) \<and>
     corpusDocs m2 = corpusDocs m \<and> sentences m2 = sentences m \<and>
     (\<forall>q topN. fst (rankSentences m2 q topN) = fst (rankSentences m q topN))"
proof -
  have "(v1, m1) = (calculateIDF t (corpusDocs m),
                    m\<lparr>idfCache := (idfCache m)(t \<mapsto> calculateIDF t (corpusDocs m))\<rparr>)"
    by (rule trans [OF first [symmetric] getIDF_absent [OF absent]])
  then have m1: "m1 = m\<lparr>idfCache := (idfCache m)(t \<mapsto> calculateIDF t (corpusDocs m))\<rparr>"
    and v1: "v1 = calculateIDF t (corpusDocs m)"
    by simp_all
  from m1 v1 have "idfCache m1 t = Some v1" by simp
  from getIDF_cached [OF this] second have same: "v2 = v1" "m2 = m1"
    by simp_all
  from first have fill: "cacheFill m m1"
    using cacheFill_getIDF [of m t] by simp
  have kept: "\<forall>k v. idfCache m k = Some v \<longrightarrow> idfCache m1 k = Some v"
    using cacheFill_kept [OF fill] by blast
  from fill have eff: "effIDF m1 = effIDF m" and sen: "sentences m1 = sentences m"
    and docs: "corpusDocs m1 = corpusDocs m"
    by (simp_all add: cacheFill_def)
  have "\<forall>q topN. fst (rankSentences m1 q topN) = fst (rankSentences m q topN)"
    using rankSentences_depends [OF eff sen] by blast
  with same kept sen docs show ?thesis
    by blast
qed

section \<open>Properties of the whole-text term frequency\<close>

lemma parseTokensStemmed_map:
  "parseTokensStemmed text = map (\<lambda>w. stemWord (toLowerCase w)) (parseTokens text)"
  by (simp add: parseTokensStemmed_def parseTokens_def)

lemma length_filter_count: "length (filter (\<lambda>w. w = token) ws) = count_list ws token"
  by (induction ws) auto

lemma calculateTF_count:
  "calculateTF token ws = real (count_list ws token) / real (length ws)"
  by (simp add: calculateTF_def length_filter_count)

text \<open>
  Claim C7: for every token, \<open>getTF\<close> is the count of the stemmed, lower-cased token among
  the stemmed tokens of the whole source text divided by the number of those tokens (0 for
  a text without tokens, where the division is by zero in the words of the claim).
\<close>

theorem getTF_whole_text:
  "getTF m (JString t) = Inr (specWholeTextTF (rawData m) t)"
  by (simp add: getTF_def specWholeTextTF_def Let_def parseTokensStemmed_map calculateTF_count)

section \<open>The constructor and the invariant of the cache\<close>

lemma setInsertAll_set: "set (setInsertAll seen xs) = set seen \<union> set xs"
  by (induction xs arbitrary: seen) auto

lemma setInsertAll_distinct: "distinct seen \<Longrightarrow> distinct (setInsertAll seen xs)"
  by (induction xs arbitrary: seen) auto

lemma set_newSet: "set (newSet xs) = set xs"
  by (simp add: newSet_def setInsertAll_set)

lemma distinct_newSet: "distinct (newSet xs)"
  by (simp add: newSet_def setInsertAll_distinct)

lemma fill_lookup:
  "foldl (\<lambda>idfMap token. idfMap(token \<mapsto> f token)) mp ts k =
     (if k \<in> set ts then Some (f k) else mp k)"
  by (induction ts arbitrary: mp) auto

lemma precomputeIDF_lookup:
  "precomputeIDF docs k = (if k \<in> set (concat docs) then Some (calculateIDF k docs) else None)"
  by (simp add: precomputeIDF_def Let_def fill_lookup set_newSet)

lemma idfCache_newModel:
  "idfCache (newModel d) k =
     (if k \<in> set (concat (corpusDocs (newModel d))) then Some (calculateIDF k (corpusDocs (newModel d)))
      else None)"
  by (simp add: newModel_def Let_def precomputeIDF_lookup)

lemma cacheConsistent_newModel: "cacheConsistent (newModel d)"
  by (simp add: cacheConsistent_def idfCache_newModel)

lemma cacheConsistent_effIDF:
  "cacheConsistent m \<longleftrightarrow> effIDF m = (\<lambda>t. calculateIDF t (corpusDocs m))"
  by (auto simp: cacheConsistent_def effIDF_def fun_eq_iff split: option.splits)

lemma cacheFill_consistent: "cacheFill m m' \<Longrightarrow> cacheConsistent m \<Longrightarrow> cacheConsistent m'"
  by (simp add: cacheConsistent_effIDF cacheFill_def)

text \<open>The invariant holds in every state of a model.\<close>

lemma reachable_consistent: "reachable m \<Longrightarrow> cacheConsistent m"
proof (induction rule: reachable.induct)
  case (constructed data)
  show ?case by (rule cacheConsistent_newModel)
next
  case (after_getIDF m token)
  from cacheFill_getIDF after_getIDF.IH show ?case by (rule cacheFill_consistent)
next
  case (after_similarity m sentence1 sentence2)
  from similarity_snd after_similarity.IH show ?case by (rule cacheFill_consistent)
next
  case (after_rank m query topN)
  from rankSentences_snd after_rank.IH show ?case by (rule cacheFill_consistent)
qed

section \<open>Vectors and the cosine\<close>

lemma foldl_add_sum_list:
  "foldl (\<lambda>sum val. sum + f val) a xs = a + sum_list (map f xs)"
  by (induction xs arbitrary: a) (simp_all add: add.assoc)

lemma dot_foldl:
  "foldl (\<lambda>sum (val, v2). sum + val * v2) a (zip (map f xs) (map g xs)) =
     a + sum_list (map (\<lambda>t. f t * g t) xs)"
  by (induction xs arbitrary: a) (simp_all add: add.assoc)

lemma dotProduct_sum:
  assumes "distinct vocab"
  shows "dotProduct (tfidfVector idf w1 vocab) (tfidfVector idf w2 vocab) =
     (\<Sum>t\<in>set vocab. (calculateTF t w1 * idf t) * (calculateTF t w2 * idf t))"
  using assms
  by (simp add: dotProduct_def tfidfVector_def dot_foldl sum_list_distinct_conv_sum_set)

lemma magnitude_sum:
  assumes "distinct vocab"
  shows "magnitude (tfidfVector idf w vocab) =
     sqrt (\<Sum>t\<in>set vocab. (calculateTF t w * idf t) * (calculateTF t w * idf t))"
  using assms
  by (simp add: magnitude_def tfidfVector_def foldl_add_sum_list sum_list_distinct_conv_sum_set)

lemma cosine_sum:
  assumes "w1 \<noteq> []" and "w2 \<noteq> []"
  shows "cosine idf w1 w2 =
     (if sqrt (\<Sum>t\<in>set w1 \<union> set w2. (calculateTF t w1 * idf t) * (calculateTF t w1 * idf t)) = 0 \<or>
         sqrt (\<Sum>t\<in>set w1 \<union> set w2. (calculateTF t w2 * idf t) * (calculateTF t w2 * idf t)) = 0
      then 0
      else (\<Sum>t\<in>set w1 \<union> set w2. (calculateTF t w1 * idf t) * (calculateTF t w2 * idf t)) /
           (sqrt (\<Sum>t\<in>set w1 \<union> set w2. (calculateTF t w1 * idf t) * (calculateTF t w1 * idf t)) *
            sqrt (\<Sum>t\<in>set w1 \<union> set w2. (calculateTF t w2 * idf t) * (calculateTF t w2 * idf t))))"
proof -
  have d: "distinct (newSet (w1 @ w2))" by (rule distinct_newSet)
  have s: "set (newSet (w1 @ w2)) = set w1 \<union> set w2" by (simp add: set_newSet)
  show ?thesis
    using assms
    by (simp only: cosine_def Let_def dotProduct_sum [OF d] magnitude_sum [OF d] s if_False simp_thms)
qed

lemma cs_algebra:
  fixes x y :: real
  assumes "x * x = A" and "y * y = B"
  shows "y * y * A - 2 * x * y * D + x * x * B = 2 * (x * y) * (x * y) - 2 * (x * y) * D"
proof -
  have "y * y * (x * x) - 2 * x * y * D + x * x * (y * y) = 2 * (x * y) * (x * y) - 2 * (x * y) * D"
    by (simp add: algebra_simps)
  then show ?thesis
    by (simp only: assms)
qed

lemma cauchy_schwarz_sum:
  fixes a b :: "'a \<Rightarrow> real"
  assumes x: "0 < sqrt (\<Sum>i\<in>S. a i * a i)" and y: "0 < sqrt (\<Sum>i\<in>S. b i * b i)"
  shows "(\<Sum>i\<in>S. a i * b i) \<le> sqrt (\<Sum>i\<in>S. a i * a i) * sqrt (\<Sum>i\<in>S. b i * b i)"
proof -
  let ?A = "\<Sum>i\<in>S. a i * a i" and ?B = "\<Sum>i\<in>S. b i * b i" and ?D = "\<Sum>i\<in>S. a i * b i"
  let ?x = "sqrt ?A" and ?y = "sqrt ?B"
  have A0: "0 \<le> ?A" by (simp add: sum_nonneg)
  have B0: "0 \<le> ?B" by (simp add: sum_nonneg)
  have xx: "?x * ?x = ?A" using A0 by simp
  have yy: "?y * ?y = ?B" using B0 by simp
  have e: "\<And>i. (a i * ?y - b i * ?x) * (a i * ?y - b i * ?x) =
      ?y * ?y * (a i * a i) - 2 * ?x * ?y * (a i * b i) + ?x * ?x * (b i * b i)"
    by (simp add: algebra_simps)
  have "0 \<le> (\<Sum>i\<in>S. (a i * ?y - b i * ?x) * (a i * ?y - b i * ?x))"
    by (simp add: sum_nonneg)
  also have "\<dots> = (\<Sum>i\<in>S. ?y * ?y * (a i * a i) - 2 * ?x * ?y * (a i * b i) + ?x * ?x * (b i * b i))"
    by (simp only: e)
  also have "\<dots> = ?y * ?y * ?A - 2 * ?x * ?y * ?D + ?x * ?x * ?B"
    by (simp only: sum.distrib sum_subtractf sum_distrib_left)
  also have "\<dots> = 2 * (?x * ?y) * (?x * ?y) - 2 * (?x * ?y) * ?D"
    by (rule cs_algebra [OF xx yy])
  finally have "2 * (?x * ?y) * ?D \<le> 2 * (?x * ?y) * (?x * ?y)"
    by simp
  moreover have "0 < 2 * (?x * ?y)" using x y by simp
  ultimately show ?thesis
    by (simp only: mult_le_cancel_left_pos)
qed

lemma calculateTF_nonneg: "0 \<le> calculateTF t ws"
  by (simp add: calculateTF_def)

lemma calculateTF_pos_iff: "0 < calculateTF t ws \<longleftrightarrow> t \<in> set ws"
proof (cases "ws = []")
  case True
  then show ?thesis by (simp add: calculateTF_def)
next
  case False
  have "0 < count_list ws t \<longleftrightarrow> t \<in> set ws"
    using count_list_0_iff [of ws t] by auto
  with False show ?thesis
    by (simp add: calculateTF_def length_filter_count zero_less_divide_iff)
qed

lemma cosine_symmetric: "cosine idf w1 w2 = cosine idf w2 w1"
proof (cases "w1 = [] \<or> w2 = []")
  case True
  then show ?thesis by (auto simp: cosine_def)
next
  case False
  then have ne: "w1 \<noteq> []" "w2 \<noteq> []" by simp_all
  have S: "set w2 \<union> set w1 = set w1 \<union> set w2" by (rule Un_commute)
  have D: "(\<Sum>t\<in>set w1 \<union> set w2. (calculateTF t w2 * idf t) * (calculateTF t w1 * idf t)) =
           (\<Sum>t\<in>set w1 \<union> set w2. (calculateTF t w1 * idf t) * (calculateTF t w2 * idf t))"
    by (rule sum.cong) (simp_all only: mult.commute)
  show ?thesis
    unfolding cosine_sum [OF ne] cosine_sum [OF ne(2) ne(1)] S D
    by (simp only: disj_commute mult.commute)
qed

lemma cosine_bounds:
  assumes idf: "\<And>t. 0 \<le> idf t"
  shows "0 \<le> cosine idf w1 w2 \<and> cosine idf w1 w2 \<le> 1"
proof (cases "w1 = [] \<or> w2 = []")
  case True
  then show ?thesis by (auto simp: cosine_def)
next
  case False
  then have ne: "w1 \<noteq> []" "w2 \<noteq> []" by simp_all
  let ?S = "set w1 \<union> set w2"
  let ?a = "\<lambda>t. calculateTF t w1 * idf t" and ?b = "\<lambda>t. calculateTF t w2 * idf t"
  let ?x = "sqrt (\<Sum>t\<in>?S. ?a t * ?a t)" and ?y = "sqrt (\<Sum>t\<in>?S. ?b t * ?b t)"
  let ?D = "\<Sum>t\<in>?S. ?a t * ?b t"
  have c: "cosine idf w1 w2 = (if ?x = 0 \<or> ?y = 0 then 0 else ?D / (?x * ?y))"
    by (rule cosine_sum [OF ne])
  show ?thesis
  proof (cases "?x = 0 \<or> ?y = 0")
    case True
    then show ?thesis by (simp only: c if_True) simp
  next
    case False
    have "0 \<le> ?x" and "0 \<le> ?y" by (simp_all add: sum_nonneg)
    with False have x: "0 < ?x" and y: "0 < ?y" by simp_all
    have D0: "0 \<le> ?D"
      by (intro sum_nonneg mult_nonneg_nonneg calculateTF_nonneg idf)
    have "?D \<le> ?x * ?y" using x y by (rule cauchy_schwarz_sum)
    moreover have xy: "0 < ?x * ?y" using x y by simp
    ultimately have "?D / (?x * ?y) \<le> 1" by (simp only: divide_le_eq_1_pos)
    moreover have "0 \<le> ?D / (?x * ?y)" using D0 xy by (rule divide_nonneg_pos)
    ultimately show ?thesis using False by (simp only: c if_False)
  qed
qed

lemma cosine_self:
  assumes ne: "w \<noteq> []" and idf: "\<And>t. t \<in> set w \<Longrightarrow> idf t \<noteq> 0"
  shows "cosine idf w w = 1"
proof -
  let ?a = "\<lambda>t. calculateTF t w * idf t"
  let ?A = "\<Sum>t\<in>set w. ?a t * ?a t"
  have c: "cosine idf w w = (if sqrt ?A = 0 \<or> sqrt ?A = 0 then 0 else ?A / (sqrt ?A * sqrt ?A))"
    using cosine_sum [OF ne ne, of idf] by (simp only: Un_absorb)
  have "0 < ?A"
  proof (rule sum_pos)
    show "finite (set w)" by simp
    from ne show "set w \<noteq> {}" by simp
    fix t assume t: "t \<in> set w"
    then have "calculateTF t w \<noteq> 0" using calculateTF_pos_iff [of t w] by simp
    with idf [OF t] have "?a t \<noteq> 0" by simp
    then show "0 < ?a t * ?a t" by (simp add: zero_less_mult_iff less_le) 
  qed
  then have "sqrt ?A \<noteq> 0" and "sqrt ?A * sqrt ?A = ?A" by simp_all
  with \<open>0 < ?A\<close> show ?thesis
    by (simp only: c) simp
qed

lemma cosine_pos_iff:
  assumes idf: "\<And>t. 0 \<le> idf t"
  shows "0 < cosine idf w1 w2 \<longleftrightarrow> (\<exists>t. t \<in> set w1 \<and> t \<in> set w2 \<and> 0 < idf t)"
proof
  assume pos: "0 < cosine idf w1 w2"
  then have ne: "w1 \<noteq> []" "w2 \<noteq> []" by (auto simp: cosine_def)
  let ?S = "set w1 \<union> set w2"
  let ?a = "\<lambda>t. calculateTF t w1 * idf t" and ?b = "\<lambda>t. calculateTF t w2 * idf t"
  let ?x = "sqrt (\<Sum>t\<in>?S. ?a t * ?a t)" and ?y = "sqrt (\<Sum>t\<in>?S. ?b t * ?b t)"
  let ?D = "\<Sum>t\<in>?S. ?a t * ?b t"
  have c: "cosine idf w1 w2 = (if ?x = 0 \<or> ?y = 0 then 0 else ?D / (?x * ?y))"
    by (rule cosine_sum [OF ne])
  have "0 \<le> ?x" and "0 \<le> ?y" by (simp_all add: sum_nonneg)
  then have "0 \<le> ?x * ?y" by simp
  have "\<not> ?D \<le> 0"
  proof
    assume "?D \<le> 0"
    with \<open>0 \<le> ?x * ?y\<close> have "?D / (?x * ?y) \<le> 0" by (simp add: divide_nonpos_nonneg)
    then have "cosine idf w1 w2 \<le> 0" by (simp only: c split: if_split) simp
    with pos show False by simp
  qed
  then have "\<exists>t\<in>?S. \<not> ?a t * ?b t \<le> 0"
    using sum_nonpos [of ?S "\<lambda>t. ?a t * ?b t"] by blast
  then obtain t where t: "0 < ?a t * ?b t" by (auto simp: not_le)
  have "0 \<le> calculateTF t w1" "0 \<le> calculateTF t w2" "0 \<le> idf t"
    by (simp_all add: calculateTF_nonneg idf)
  with t have "0 < calculateTF t w1 \<and> 0 < calculateTF t w2 \<and> 0 < idf t"
    by (auto simp: zero_less_mult_iff less_le)
  then show "\<exists>t. t \<in> set w1 \<and> t \<in> set w2 \<and> 0 < idf t"
    by (auto simp: calculateTF_pos_iff)
next
  assume "\<exists>t. t \<in> set w1 \<and> t \<in> set w2 \<and> 0 < idf t"
  then obtain t where t1: "t \<in> set w1" and t2: "t \<in> set w2" and ti: "0 < idf t" by blast
  from t1 t2 have ne: "w1 \<noteq> []" "w2 \<noteq> []" by auto
  let ?S = "set w1 \<union> set w2"
  let ?a = "\<lambda>t. calculateTF t w1 * idf t" and ?b = "\<lambda>t. calculateTF t w2 * idf t"
  let ?x = "sqrt (\<Sum>t\<in>?S. ?a t * ?a t)" and ?y = "sqrt (\<Sum>t\<in>?S. ?b t * ?b t)"
  let ?D = "\<Sum>t\<in>?S. ?a t * ?b t"
  have c: "cosine idf w1 w2 = (if ?x = 0 \<or> ?y = 0 then 0 else ?D / (?x * ?y))"
    by (rule cosine_sum [OF ne])
  have tS: "t \<in> ?S" using t1 by simp
  have a: "0 < ?a t" using t1 ti by (simp add: calculateTF_pos_iff)
  have b: "0 < ?b t" using t2 ti by (simp add: calculateTF_pos_iff)
  have nn: "\<And>u. 0 \<le> ?a u" "\<And>u. 0 \<le> ?b u"
    by (simp_all add: calculateTF_nonneg idf)
  have "0 < (\<Sum>t\<in>?S. ?a t * ?a t)"
    by (rule sum_pos2 [OF _ tS]) (use a in simp_all)
  then have x: "0 < ?x" by simp
  have "0 < (\<Sum>t\<in>?S. ?b t * ?b t)"
    by (rule sum_pos2 [OF _ tS]) (use b in simp_all)
  then have y: "0 < ?y" by simp
  have "0 < ?D"
  proof (rule sum_pos2 [OF _ tS])
    show "finite ?S" by simp
    from a b show "0 < ?a t * ?b t" by (rule mult_pos_pos)
    fix u show "0 \<le> ?a u * ?b u" using nn by (rule mult_nonneg_nonneg)
  qed
  with x y have "0 < ?D / (?x * ?y)" by simp
  with x y show "0 < cosine idf w1 w2" by (simp only: c) simp
qed

section \<open>The end-to-end example\<close>

lemma example_parseSentences:
  "parseSentences (JString ''The cat sat. The dog ran fast.'') = [''The cat sat'', ''The dog ran fast'']"
  by code_simp

lemma example_parseTokensStemmed:
  "parseTokensStemmed (JString ''The cat sat'') = [''the'', ''cat'', ''sat'']"
  "parseTokensStemmed (JString ''The dog ran fast'') = [''the'', ''dog'', ''ran'', ''fast'']"
  "parseTokensStemmed (JString ''cat'') = [''cat'']"
  "parseTokensStemmed (JString []) = []"
  by code_simp+

lemma example_sentences: "sentences exampleModel = [''The cat sat'', ''The dog ran fast'']"
  by (simp add: exampleModel_def newModel_def Let_def example_parseSentences)

lemma example_corpusDocs:
  "corpusDocs exampleModel = [[''the'', ''cat'', ''sat''], [''the'', ''dog'', ''ran'', ''fast'']]"
  by (simp add: exampleModel_def newModel_def Let_def example_parseSentences example_parseTokensStemmed)

lemma example_reachable: "reachable exampleModel"
  unfolding exampleModel_def by (rule reachable.constructed)

lemma example_consistent: "cacheConsistent exampleModel"
  using example_reachable by (rule reachable_consistent)

lemma effIDF_consistent:
  "cacheConsistent m \<Longrightarrow> effIDF m t = calculateIDF t (corpusDocs m)"
  by (simp add: cacheConsistent_effIDF)

lemma example_effIDF_ge_1: "1 \<le> effIDF exampleModel t"
proof -
  have "corpusDocs exampleModel \<noteq> []" by (simp add: example_corpusDocs)
  from calculateIDF_ge_1 [OF this, of t] show ?thesis
    by (simp add: effIDF_consistent [OF example_consistent])
qed

lemma example_ranking:
  "\<exists>score. 0 < score \<and>
     fst (rankSentences exampleModel (JString ''cat'') topN) = [(''The cat sat'', score)]"
proof -
  let ?idf = "effIDF exampleModel"
  have nn: "\<And>t. 0 \<le> ?idf t" using example_effIDF_ge_1 by (simp add: order_trans [of 0 1])
  have "0 < ?idf ''cat''" using example_effIDF_ge_1 [of "''cat''"] by simp
  then have hit: "0 < cosine ?idf [''cat''] [''the'', ''cat'', ''sat'']"
    by (simp add: cosine_pos_iff [OF nn])
  have miss: "\<not> 0 < cosine ?idf [''cat''] [''the'', ''dog'', ''ran'', ''fast'']"
    by (simp add: cosine_pos_iff [OF nn])
  have "scoredSentences exampleModel (JString ''cat'') =
          [(''The cat sat'', cosine ?idf [''cat''] [''the'', ''cat'', ''sat''])]"
    using hit miss
    by (simp add: scoredSentences_eq example_sentences example_parseTokensStemmed sortByScore_def)
  with hit show ?thesis
    by (simp add: rankSentences_fst)
qed

section \<open>Properties of the similarity\<close>

lemma similarity_unfold:
  assumes "parseTokensStemmed s1 \<noteq> []" and "parseTokensStemmed s2 \<noteq> []"
  shows "fst (calculateTFIDFSimilarity m s1 s2) =
     (let vocab = newSet (parseTokensStemmed s1 @ parseTokensStemmed s2);
          vec1 = fst (weights m (parseTokensStemmed s1) vocab);
          vec2 = fst (weights (snd (weights m (parseTokensStemmed s1) vocab))
                        (parseTokensStemmed s2) vocab)
      in if magnitude vec1 = 0 \<or> magnitude vec2 = 0 then 0
         else dotProduct vec1 vec2 / (magnitude vec1 * magnitude vec2))"
  using assms by (simp add: calculateTFIDFSimilarity_def Let_def split: prod.splits)

lemma similarity_empty:
  "parseTokensStemmed s1 = [] \<or> parseTokensStemmed s2 = [] \<Longrightarrow>
     fst (calculateTFIDFSimilarity m s1 s2) = 0"
  by (auto simp: calculateTFIDFSimilarity_def)

lemma effIDF_nonneg: "cacheConsistent m \<Longrightarrow> 0 \<le> effIDF m t"
  by (simp add: effIDF_consistent calculateIDF_nonneg)

text \<open>In exact arithmetic, in every state of a model, the similarity of two strings lies in
  the interval from 0 to 1; it is 0 when the stemmed tokens of either string are empty, and
  0 when either TF-IDF vector has magnitude 0.\<close>

lemma similarity_range_exact:
  assumes "reachable m"
  shows "0 \<le> fst (calculateTFIDFSimilarity m (JString spanA) (JString spanB)) \<and>
     fst (calculateTFIDFSimilarity m (JString spanA) (JString spanB)) \<le> 1 \<and>
     (parseTokensStemmed (JString spanA) = [] \<or> parseTokensStemmed (JString spanB) = [] \<longrightarrow>
        fst (calculateTFIDFSimilarity m (JString spanA) (JString spanB)) = 0) \<and>
     (let words1 = parseTokensStemmed (JString spanA);
          words2 = parseTokensStemmed (JString spanB);
          vocab = newSet (words1 @ words2);
          vec1 = fst (weights m words1 vocab);
          vec2 = fst (weights (snd (weights m words1 vocab)) words2 vocab)
      in magnitude vec1 = 0 \<or> magnitude vec2 = 0 \<longrightarrow>
           fst (calculateTFIDFSimilarity m (JString spanA) (JString spanB)) = 0)"
proof (intro conjI)
  from assms have "cacheConsistent m" by (rule reachable_consistent)
  then have nn: "\<And>t. 0 \<le> effIDF m t" by (rule effIDF_nonneg)
  from cosine_bounds [OF nn]
  show "0 \<le> fst (calculateTFIDFSimilarity m (JString spanA) (JString spanB))"
    and "fst (calculateTFIDFSimilarity m (JString spanA) (JString spanB)) \<le> 1"
    by (simp_all add: similarity_fst)
  show "parseTokensStemmed (JString spanA) = [] \<or> parseTokensStemmed (JString spanB) = [] \<longrightarrow>
        fst (calculateTFIDFSimilarity m (JString spanA) (JString spanB)) = 0"
    using similarity_empty by blast
  show "let words1 = parseTokensStemmed (JString spanA);
          words2 = parseTokensStemmed (JString spanB);
          vocab = newSet (words1 @ words2);
          vec1 = fst (weights m words1 vocab);
          vec2 = fst (weights (snd (weights m words1 vocab)) words2 vocab)
      in magnitude vec1 = 0 \<or> magnitude vec2 = 0 \<longrightarrow>
           fst (calculateTFIDFSimilarity m (JString spanA) (JString spanB)) = 0"
  proof (cases "parseTokensStemmed (JString spanA) = [] \<or> parseTokensStemmed (JString spanB) = []")
    case True
    then have "fst (calculateTFIDFSimilarity m (JString spanA) (JString spanB)) = 0"
      by (rule similarity_empty)
    then show ?thesis by (simp add: Let_def)
  next
    case False
    then have ne: "parseTokensStemmed (JString spanA) \<noteq> []" "parseTokensStemmed (JString spanB) \<noteq> []"
      by simp_all
    show ?thesis
      by (simp add: similarity_unfold [OF ne] Let_def)
  qed
qed

text \<open>
  Claim C10: for every pair of strings and every state of the model, the similarity is
  symmetric, although the vocabulary is built in another order when the arguments are
  swapped.
\<close>

theorem similarity_symmetric:
  "fst (calculateTFIDFSimilarity m (JString a) (JString b)) =
   fst (calculateTFIDFSimilarity m (JString b) (JString a))"
  by (simp only: similarity_fst cosine_symmetric [of "effIDF m" "parseTokensStemmed (JString a)"])

section \<open>The properties on the example\<close>

text \<open>The model of the empty text has no documents: every IDF is 0 there, and so is every
  magnitude.\<close>

lemma empty_corpus: "corpusDocs (newModel (JString [])) = []"
  by (simp add: newModel_def Let_def parseSentences_def)

lemma empty_corpus_effIDF: "effIDF (newModel (JString [])) t = 0"
  by (simp add: effIDF_consistent [OF cacheConsistent_newModel] empty_corpus calculateIDF_def)

lemma empty_corpus_magnitude:
  "magnitude (fst (weights (newModel (JString [])) [''cat''] [''cat''])) = 0"
proof -
  have "tfidfVector (effIDF (newModel (JString []))) [''cat''] [''cat''] = [0]"
    by (simp add: tfidfVector_def empty_corpus_effIDF)
  then show ?thesis
    by (simp only: weights_fst) (simp add: magnitude_def)
qed

lemma similarity_range_exact_example:
  "reachable exampleModel \<and>
   0 \<le> fst (calculateTFIDFSimilarity exampleModel (JString ''cat'') (JString ''The cat sat'')) \<and>
   fst (calculateTFIDFSimilarity exampleModel (JString ''cat'') (JString ''The cat sat'')) \<le> 1 \<and>
   parseTokensStemmed (JString []) = [] \<and>
   fst (calculateTFIDFSimilarity exampleModel (JString []) (JString ''The cat sat'')) = 0 \<and>
   reachable (newModel (JString [])) \<and>
   magnitude (fst (weights (newModel (JString [])) [''cat''] [''cat''])) = 0 \<and>
   fst (calculateTFIDFSimilarity (newModel (JString [])) (JString ''cat'') (JString ''cat'')) = 0"
proof -
  note a = similarity_range_exact [OF example_reachable, of "''cat''" "''The cat sat''"]
  note b = similarity_range_exact [OF example_reachable, of "[]" "''The cat sat''"]
  have r0: "reachable (newModel (JString []))" by (rule reachable.constructed)
  note c = similarity_range_exact [OF r0, of "''cat''" "''cat''"]
  have v: "newSet [''cat'', ''cat''] = [''cat'']" by code_simp
  have a1: "0 \<le> fst (calculateTFIDFSimilarity exampleModel (JString ''cat'') (JString ''The cat sat''))"
    by (rule a [THEN conjunct1])
  have a2: "fst (calculateTFIDFSimilarity exampleModel (JString ''cat'') (JString ''The cat sat'')) \<le> 1"
    by (rule a [THEN conjunct2, THEN conjunct1])
  have e: "parseTokensStemmed (JString []) = []"
    by (rule example_parseTokensStemmed(4))
  have b3: "fst (calculateTFIDFSimilarity exampleModel (JString []) (JString ''The cat sat'')) = 0"
    using b [THEN conjunct2, THEN conjunct2, THEN conjunct1] e by simp
  have c4: "fst (calculateTFIDFSimilarity (newModel (JString [])) (JString ''cat'') (JString ''cat'')) = 0"
    using c [THEN conjunct2, THEN conjunct2, THEN conjunct2] empty_corpus_magnitude
    by (simp add: Let_def example_parseTokensStemmed(3) v)
  from example_reachable a1 a2 e b3 r0 empty_corpus_magnitude c4 show ?thesis
    by (intro conjI)
qed

theorem similarity_symmetric_witness:
  "fst (calculateTFIDFSimilarity exampleModel (JString ''cat'') (JString ''The cat sat'')) =
   fst (calculateTFIDFSimilarity exampleModel (JString ''The cat sat'') (JString ''cat'')) \<and>
   newSet (parseTokensStemmed (JString ''cat'') @ parseTokensStemmed (JString ''The cat sat'')) =
     [''cat'', ''the'', ''sat''] \<and>
   newSet (parseTokensStemmed (JString ''The cat sat'') @ parseTokensStemmed (JString ''cat'')) =
     [''the'', ''cat'', ''sat'']"
proof -
  have "newSet ([''cat''] @ [''the'', ''cat'', ''sat'']) = [''cat'', ''the'', ''sat'']"
    and "newSet ([''the'', ''cat'', ''sat''] @ [''cat'']) = [''the'', ''cat'', ''sat'']"
    by code_simp+
  with similarity_symmetric [of exampleModel "''cat''" "''The cat sat''"] show ?thesis
    by (simp add: example_parseTokensStemmed)
qed

theorem rankSentences_invalid_query_witness:
  "typeof JUndefined \<noteq> ''string'' \<and>
   rankSentences exampleModel JUndefined 3 = ([], exampleModel) \<and>
   rankSentences exampleModel (JString []) 3 = ([], exampleModel)"
  using rankSentences_invalid_query [of JUndefined exampleModel 3]
    rankSentences_invalid_query [of "JString []" exampleModel 3]
  by simp

theorem getTF_whole_text_witness:
  "getTF exampleModel (JString ''Cats'') = Inr (1 / 7)"
proof -
  have raw: "rawData exampleModel = JString ''The cat sat. The dog ran fast.''"
    by (simp add: exampleModel_def newModel_def Let_def)
  have "map (\<lambda>w. stemWord (toLowerCase w)) (parseTokens (JString ''The cat sat. The dog ran fast.'')) =
      [''the'', ''cat'', ''sat'', ''the'', ''dog'', ''ran'', ''fast'']"
    and "stemWord (toLowerCase ''Cats'') = ''cat''"
    by code_simp+
  with getTF_whole_text [of exampleModel "''Cats''"] show ?thesis
    by (simp add: specWholeTextTF_def raw)
qed

theorem getIDF_idempotent_witness:
  "idfCache exampleModel ''bird'' = None \<and>
   fst (getIDF (snd (getIDF exampleModel ''bird'')) ''bird'') = fst (getIDF exampleModel ''bird'') \<and>
   idfCache (snd (getIDF exampleModel ''bird'')) ''bird'' = Some (ln 3 + 1) \<and>
   corpusDocs (snd (getIDF (snd (getIDF exampleModel ''bird'')) ''bird'')) = corpusDocs exampleModel"
proof -
  have absent: "idfCache exampleModel ''bird'' = None"
    unfolding exampleModel_def idfCache_newModel
    by (simp add: example_corpusDocs [unfolded exampleModel_def])
  have v: "calculateIDF ''bird'' (corpusDocs exampleModel) = ln 3 + 1"
    by (simp add: example_corpusDocs calculateIDF_def docFreq_def)
  have g: "getIDF exampleModel ''bird'' =
      (fst (getIDF exampleModel ''bird''), snd (getIDF exampleModel ''bird''))"
    by simp
  have g': "getIDF (snd (getIDF exampleModel ''bird'')) ''bird'' =
      (fst (getIDF (snd (getIDF exampleModel ''bird'')) ''bird''),
       snd (getIDF (snd (getIDF exampleModel ''bird'')) ''bird''))"
    by simp
  from getIDF_idempotent [OF absent g g'] absent v show ?thesis
    by (simp add: getIDF_absent [OF absent])
qed

section \<open>The operations for every arithmetic\<close>

text \<open>With the exact arithmetic the operations are those of the first reading.\<close>

lemma exact_simps:
  "numAdd exact x y = x + y" "numMul exact x y = x * y" "numDiv exact x y = x / y"
  "numSqrt exact x = sqrt x" "numLog exact x = ln x"
  by (simp_all add: exact_def)

lemma calculateTF_exact: "calculateTF_in exact = calculateTF"
  by (simp add: fun_eq_iff calculateTF_in_def calculateTF_def exact_simps)

lemma calculateIDF_exact: "calculateIDF_in exact = calculateIDF"
  by (simp add: fun_eq_iff calculateIDF_in_def calculateIDF_def exact_simps)

lemma precomputeIDF_exact: "precomputeIDF_in exact = precomputeIDF"
  by (simp add: fun_eq_iff precomputeIDF_in_def precomputeIDF_def calculateIDF_exact)

lemma newModel_exact: "newModel_in exact = newModel"
  by (simp add: fun_eq_iff newModel_in_def newModel_def precomputeIDF_exact)

lemma getIDF_exact: "getIDF_in exact = getIDF"
  by (simp add: fun_eq_iff getIDF_in_def getIDF_def calculateIDF_exact split: option.splits)

lemma weights_exact: "weights_in exact m words vocab = weights m words vocab"
  by (induction vocab arbitrary: m)
     (simp_all add: getIDF_exact calculateTF_exact exact_simps split: prod.splits)

lemma dotProduct_exact: "dotProduct_in exact = dotProduct"
  by (simp add: fun_eq_iff dotProduct_in_def dotProduct_def exact_simps)

lemma magnitude_exact: "magnitude_in exact = magnitude"
  by (simp add: fun_eq_iff magnitude_in_def magnitude_def exact_simps)

lemma similarity_exact: "calculateTFIDFSimilarity_in exact = calculateTFIDFSimilarity"
  by (simp add: fun_eq_iff calculateTFIDFSimilarity_in_def calculateTFIDFSimilarity_def
      weights_exact dotProduct_exact magnitude_exact exact_simps Let_def split: prod.splits)

lemma rankLoop_exact: "rankLoop_in exact m q ss acc = rankLoop m q ss acc"
  by (induction ss arbitrary: m acc) (simp_all add: similarity_exact split: prod.splits)

lemma rankSentences_exact: "rankSentences_in exact = rankSentences"
  by (simp add: fun_eq_iff rankSentences_in_def rankSentences_def rankLoop_exact)

lemma getIDF_in_fst: "fst (getIDF_in ar m t) = effIDF_in ar m t"
  by (simp add: getIDF_in_def effIDF_in_def Let_def split: option.splits)

lemma getIDF_in_effIDF: "effIDF_in ar (snd (getIDF_in ar m t)) = effIDF_in ar m"
  by (auto simp: getIDF_in_def effIDF_in_def Let_def fun_eq_iff split: option.splits)

lemma getIDF_in_sentences: "sentences (snd (getIDF_in ar m t)) = sentences m"
  by (simp add: getIDF_in_def Let_def split: option.splits)

lemma weights_in_effIDF: "effIDF_in ar (snd (weights_in ar m words vocab)) = effIDF_in ar m"
proof (induction vocab arbitrary: m)
  case Nil
  show ?case by simp
next
  case (Cons t ts)
  obtain idf m1 where g: "getIDF_in ar m t = (idf, m1)" by (cases "getIDF_in ar m t")
  from g have e1: "effIDF_in ar m1 = effIDF_in ar m" using getIDF_in_effIDF [of ar m t] by simp
  obtain ws m2 where w: "weights_in ar m1 words ts = (ws, m2)" by (cases "weights_in ar m1 words ts")
  from w Cons.IH [of m1] have "effIDF_in ar m2 = effIDF_in ar m1" by simp
  with e1 g w show ?case by simp
qed

lemma weights_in_sentences: "sentences (snd (weights_in ar m words vocab)) = sentences m"
proof (induction vocab arbitrary: m)
  case Nil
  show ?case by simp
next
  case (Cons t ts)
  obtain idf m1 where g: "getIDF_in ar m t = (idf, m1)" by (cases "getIDF_in ar m t")
  from g have e1: "sentences m1 = sentences m" using getIDF_in_sentences [of ar m t] by simp
  obtain ws m2 where w: "weights_in ar m1 words ts = (ws, m2)" by (cases "weights_in ar m1 words ts")
  from w Cons.IH [of m1] have "sentences m2 = sentences m1" by simp
  with e1 g w show ?case by simp
qed

lemma weights_in_fst:
  "fst (weights_in ar m words vocab) =
     map (\<lambda>t. numMul ar (calculateTF_in ar t words) (effIDF_in ar m t)) vocab"
proof (induction vocab arbitrary: m)
  case Nil
  show ?case by simp
next
  case (Cons t ts)
  obtain idf m1 where g: "getIDF_in ar m t = (idf, m1)" by (cases "getIDF_in ar m t")
  from g have idf: "idf = effIDF_in ar m t" using getIDF_in_fst [of ar m t] by simp
  from g have e1: "effIDF_in ar m1 = effIDF_in ar m" using getIDF_in_effIDF [of ar m t] by simp
  obtain ws m2 where w: "weights_in ar m1 words ts = (ws, m2)" by (cases "weights_in ar m1 words ts")
  from w Cons.IH [of m1]
  have "ws = map (\<lambda>t. numMul ar (calculateTF_in ar t words) (effIDF_in ar m t)) ts"
    by (simp add: e1)
  with g w idf show ?case by simp
qed

text \<open>The similarity depends on the model only through the values \<open>getIDF\<close> returns.\<close>

lemma similarity_in_depends:
  assumes "effIDF_in ar m' = effIDF_in ar m"
  shows "fst (calculateTFIDFSimilarity_in ar m' s1 s2) = fst (calculateTFIDFSimilarity_in ar m s1 s2)"
proof -
  let ?w1 = "parseTokensStemmed s1" and ?w2 = "parseTokensStemmed s2"
  let ?vocab = "newSet (?w1 @ ?w2)"
  have a: "fst (weights_in ar m' ?w1 ?vocab) = fst (weights_in ar m ?w1 ?vocab)"
    by (simp add: weights_in_fst assms)
  have "effIDF_in ar (snd (weights_in ar m' ?w1 ?vocab)) = effIDF_in ar (snd (weights_in ar m ?w1 ?vocab))"
    by (simp add: weights_in_effIDF assms)
  then have b: "fst (weights_in ar (snd (weights_in ar m' ?w1 ?vocab)) ?w2 ?vocab) =
       fst (weights_in ar (snd (weights_in ar m ?w1 ?vocab)) ?w2 ?vocab)"
    by (simp add: weights_in_fst)
  have u: "fst (calculateTFIDFSimilarity_in ar k s1 s2) =
      (if ?w1 = [] \<or> ?w2 = [] then 0
       else let vec1 = fst (weights_in ar k ?w1 ?vocab);
                vec2 = fst (weights_in ar (snd (weights_in ar k ?w1 ?vocab)) ?w2 ?vocab)
            in if magnitude_in ar vec1 = 0 \<or> magnitude_in ar vec2 = 0 then 0
               else numDiv ar (dotProduct_in ar vec1 vec2)
                      (numMul ar (magnitude_in ar vec1) (magnitude_in ar vec2)))" for k
    by (simp add: calculateTFIDFSimilarity_in_def Let_def split: prod.splits)
  show ?thesis
    by (simp only: u a b)
qed

lemma similarity_in_effIDF:
  "effIDF_in ar (snd (calculateTFIDFSimilarity_in ar m s1 s2)) = effIDF_in ar m"
proof -
  let ?w1 = "parseTokensStemmed s1" and ?w2 = "parseTokensStemmed s2"
  let ?vocab = "newSet (?w1 @ ?w2)"
  obtain vec1 m1 where a: "weights_in ar m ?w1 ?vocab = (vec1, m1)"
    by (cases "weights_in ar m ?w1 ?vocab")
  obtain vec2 m2 where b: "weights_in ar m1 ?w2 ?vocab = (vec2, m2)"
    by (cases "weights_in ar m1 ?w2 ?vocab")
  from a have "effIDF_in ar m1 = effIDF_in ar m" using weights_in_effIDF [of ar m ?w1 ?vocab] by simp
  moreover from b have "effIDF_in ar m2 = effIDF_in ar m1" using weights_in_effIDF [of ar m1 ?w2 ?vocab] by simp
  ultimately have "effIDF_in ar m2 = effIDF_in ar m" by simp
  then show ?thesis
    by (simp add: calculateTFIDFSimilarity_in_def Let_def a b)
qed

lemma similarity_in_sentences:
  "sentences (snd (calculateTFIDFSimilarity_in ar m s1 s2)) = sentences m"
proof -
  let ?w1 = "parseTokensStemmed s1" and ?w2 = "parseTokensStemmed s2"
  let ?vocab = "newSet (?w1 @ ?w2)"
  obtain vec1 m1 where a: "weights_in ar m ?w1 ?vocab = (vec1, m1)"
    by (cases "weights_in ar m ?w1 ?vocab")
  obtain vec2 m2 where b: "weights_in ar m1 ?w2 ?vocab = (vec2, m2)"
    by (cases "weights_in ar m1 ?w2 ?vocab")
  from a have "sentences m1 = sentences m" using weights_in_sentences [of ar m ?w1 ?vocab] by simp
  moreover from b have "sentences m2 = sentences m1" using weights_in_sentences [of ar m1 ?w2 ?vocab] by simp
  ultimately have "sentences m2 = sentences m" by simp
  then show ?thesis
    by (simp add: calculateTFIDFSimilarity_in_def Let_def a b)
qed

text \<open>The loop collects, in the order of the corpus, the sentences whose similarity to the
  query is positive; the scores are those the model gives before the loop starts.\<close>

lemma rankLoop_in_fst:
  assumes "effIDF_in ar m' = effIDF_in ar m"
  shows "fst (rankLoop_in ar m' q ss acc) =
     acc @ filter (\<lambda>p. 0 < snd p)
             (map (\<lambda>s. (s, fst (calculateTFIDFSimilarity_in ar m q (JString s)))) ss)"
  using assms
proof (induction ss arbitrary: m' acc)
  case Nil
  show ?case by simp
next
  case (Cons s ss)
  obtain sim m1 where c: "calculateTFIDFSimilarity_in ar m' q (JString s) = (sim, m1)"
    by (cases "calculateTFIDFSimilarity_in ar m' q (JString s)")
  from c have sim: "sim = fst (calculateTFIDFSimilarity_in ar m q (JString s))"
    using similarity_in_depends [OF Cons.prems, of q "JString s"] by simp
  from c have "effIDF_in ar m1 = effIDF_in ar m'"
    using similarity_in_effIDF [of ar m' q "JString s"] by simp
  with Cons.prems have e: "effIDF_in ar m1 = effIDF_in ar m" by simp
  show ?case
    by (simp add: c Cons.IH [OF e] sim [symmetric])
qed

lemma similarity_in_invalid:
  "falsy q \<or> typeof q \<noteq> ''string'' \<Longrightarrow> fst (calculateTFIDFSimilarity_in ar m q s) = 0"
  by (simp add: calculateTFIDFSimilarity_in_def parseTokensStemmed_invalid)

lemma positiveScores_invalid:
  assumes "falsy q \<or> typeof q \<noteq> ''string''"
  shows "positiveScores ar m q = []"
  by (simp add: positiveScores_def similarity_in_invalid [OF assms])

lemma rankSentences_in_fst:
  "fst (rankSentences_in ar m q topN) =
     (if 0 < topN then take (nat topN) (sortByScore (positiveScores ar m q))
      else sortByScore (positiveScores ar m q))"
proof (cases "falsy q \<or> typeof q \<noteq> ''string''")
  case True
  then show ?thesis
    by (simp add: rankSentences_in_def positiveScores_invalid sortByScore_def)
next
  case False
  obtain ranks m1 where r: "rankLoop_in ar m q (sentences m) [] = (ranks, m1)"
    by (cases "rankLoop_in ar m q (sentences m) []")
  from r have "ranks = positiveScores ar m q"
    using rankLoop_in_fst [of ar m m q "sentences m" "[]"] by (simp add: positiveScores_def)
  with False r show ?thesis
    by (simp add: rankSentences_in_def Let_def)
qed

lemma positiveScores_positive: "p \<in> set (positiveScores ar m q) \<Longrightarrow> 0 < snd p"
  by (auto simp: positiveScores_def)

lemma mset_sortByScore: "mset (sortByScore xs) = mset xs"
  by (simp add: sortByScore_def)

text \<open>
  Claim C1: for every query and every integer \<open>topN\<close>, whatever the arithmetic of numbers,
  every score that \<open>rankSentences\<close> returns is strictly positive and the scores are in
  descending order. For \<open>topN > 0\<close> the result has at most \<open>topN\<close> entries, and they are the
  first \<open>topN\<close> entries of the result for \<open>topN = 0\<close>. For \<open>topN \<le> 0\<close> the result is the full
  filtered, sorted sequence: it holds exactly the pairs of a sentence of the corpus and its
  similarity to the query whose similarity is positive, each as often as the sentence occurs,
  and pairs with equal scores keep the order of the corpus.
\<close>

theorem rankSentences_ranked:
  "(\<forall>p \<in> set (fst (rankSentences_in ar m q topN)). 0 < snd p) \<and>
   sorted_wrt (\<lambda>a b. snd b \<le> snd a) (fst (rankSentences_in ar m q topN)) \<and>
   (0 < topN \<longrightarrow>
      length (fst (rankSentences_in ar m q topN)) \<le> nat topN \<and>
      fst (rankSentences_in ar m q topN) = take (nat topN) (fst (rankSentences_in ar m q 0))) \<and>
   (topN \<le> 0 \<longrightarrow>
      mset (fst (rankSentences_in ar m q topN)) = mset (positiveScores ar m q) \<and>
      (\<forall>k. filter (\<lambda>p. snd p = k) (fst (rankSentences_in ar m q topN)) =
           filter (\<lambda>p. snd p = k) (positiveScores ar m q)))"
proof -
  let ?full = "sortByScore (positiveScores ar m q)"
  have pos: "\<forall>p \<in> set ?full. 0 < snd p"
    using positiveScores_positive by (auto simp: set_sortByScore)
  have srt: "sorted_wrt (\<lambda>a b. snd b \<le> snd a) ?full"
    by (rule sorted_sortByScore)
  have stable: "filter (\<lambda>p. snd p = k) ?full = filter (\<lambda>p. snd p = k) (positiveScores ar m q)" for k
  proof -
    have "filter (\<lambda>p. - snd p = - k) (sort_key (\<lambda>p. - snd p) (positiveScores ar m q)) =
          filter (\<lambda>p. - snd p = - k) (positiveScores ar m q)"
      by (rule sort_key_stable)
    then show ?thesis by (simp add: sortByScore_def)
  qed
  have zero: "fst (rankSentences_in ar m q 0) = ?full"
    by (simp add: rankSentences_in_fst)
  show ?thesis
  proof (cases "0 < topN")
    case True
    then have r: "fst (rankSentences_in ar m q topN) = take (nat topN) ?full"
      by (simp add: rankSentences_in_fst)
    have "\<forall>p \<in> set (take (nat topN) ?full). 0 < snd p"
      using pos by (blast dest: in_set_takeD)
    moreover have "sorted_wrt (\<lambda>a b. snd b \<le> snd a) (take (nat topN) ?full)"
      using srt by (rule sorted_wrt_take)
    ultimately show ?thesis
      using True by (simp add: r zero)
  next
    case False
    then have r: "fst (rankSentences_in ar m q topN) = ?full"
      by (simp add: rankSentences_in_fst)
    from False pos srt stable show ?thesis
      by (simp add: r mset_sortByScore)
  qed
qed

lemma similarity_in_fst:
  "fst (calculateTFIDFSimilarity_in ar m s1 s2) =
     cosine_in ar (effIDF_in ar m) (parseTokensStemmed s1) (parseTokensStemmed s2)"
proof -
  let ?w1 = "parseTokensStemmed s1" and ?w2 = "parseTokensStemmed s2"
  let ?vocab = "newSet (?w1 @ ?w2)"
  obtain vec1 m1 where a: "weights_in ar m ?w1 ?vocab = (vec1, m1)"
    by (cases "weights_in ar m ?w1 ?vocab")
  obtain vec2 m2 where b: "weights_in ar m1 ?w2 ?vocab = (vec2, m2)"
    by (cases "weights_in ar m1 ?w2 ?vocab")
  from a have v1: "vec1 = map (\<lambda>t. numMul ar (calculateTF_in ar t ?w1) (effIDF_in ar m t)) ?vocab"
    using weights_in_fst [of ar m ?w1 ?vocab] by simp
  from a have "effIDF_in ar m1 = effIDF_in ar m"
    using weights_in_effIDF [of ar m ?w1 ?vocab] by simp
  with b have v2: "vec2 = map (\<lambda>t. numMul ar (calculateTF_in ar t ?w2) (effIDF_in ar m t)) ?vocab"
    using weights_in_fst [of ar m1 ?w2 ?vocab] by simp
  show ?thesis
    by (simp add: calculateTFIDFSimilarity_in_def cosine_in_def Let_def a b v1 [symmetric] v2 [symmetric])
qed

lemma precomputeIDF_in_lookup:
  "precomputeIDF_in ar docs k =
     (if k \<in> set (concat docs) then Some (calculateIDF_in ar k docs) else None)"
  by (simp add: precomputeIDF_in_def Let_def fill_lookup set_newSet)

lemma effIDF_in_newModel:
  "effIDF_in ar (newModel_in ar d) t = calculateIDF_in ar t (corpusDocs (newModel_in ar d))"
  by (simp add: effIDF_in_def newModel_in_def Let_def precomputeIDF_in_lookup)

section \<open>Rounding to binary64\<close>

lemma roundTiesToEven_near:
  assumes "\<bar>q - of_int n\<bar> < 1 / 2"
  shows "roundTiesToEven q = n"
proof (cases "of_int n \<le> q")
  case True
  with assms have "of_int n \<le> q" and "q < of_int n + 1" by simp_all
  then have f: "\<lfloor>q\<rfloor> = n" by (simp add: floor_unique)
  from True assms have "q - of_int n < 1 / 2" by simp
  then show ?thesis by (simp add: roundTiesToEven_def f)
next
  case False
  with assms have "of_int (n - 1) \<le> q" and "q < of_int (n - 1) + 1" by simp_all
  then have f: "\<lfloor>q\<rfloor> = n - 1" by (rule floor_unique)
  from False assms have "1 / 2 < q - of_int (n - 1)" by simp
  then show ?thesis by (simp add: roundTiesToEven_def f)
qed

lemma round64_value:
  assumes e: "- 1022 \<le> e"
    and lo: "2 powr of_int e \<le> \<bar>x\<bar>"
    and hi: "\<bar>x\<bar> < 2 powr of_int (e + 1)"
    and near: "\<bar>x / 2 powr of_int (e - 52) - of_int n\<bar> < 1 / 2"
  shows "round64 x = of_int n * 2 powr of_int (e - 52)"
proof -
  from lo have pos: "0 < \<bar>x\<bar>"
    by (rule less_le_trans [rotated]) simp
  then have nz: "x \<noteq> 0" by simp
  have "\<lfloor>log 2 \<bar>x\<bar>\<rfloor> = e"
    using lo hi by (simp add: floor_log_eq_powr_iff [OF pos])
  with e have u: "ulpExponent x = e - 52"
    by (simp add: ulpExponent_def)
  show ?thesis
    unfolding round64_def u using nz roundTiesToEven_near [OF near] by simp
qed

lemma round64_between:
  assumes e: "- 1022 \<le> e"
    and lo: "2 powr of_int e \<le> x"
    and hi: "x < 2 powr of_int (e + 1)"
    and below: "(of_int n - 1 / 2) * 2 powr of_int (e - 52) < x"
    and above: "x < (of_int n + 1 / 2) * 2 powr of_int (e - 52)"
  shows "round64 x = of_int n * 2 powr of_int (e - 52)"
proof (rule round64_value [OF e])
  have "0 < 2 powr real_of_int e" by simp
  then have x: "0 < x" using lo by (rule less_le_trans)
  from x lo show "2 powr of_int e \<le> \<bar>x\<bar>" by simp
  from x hi show "\<bar>x\<bar> < 2 powr of_int (e + 1)" by simp
  have u: "0 < 2 powr real_of_int (e - 52)" by simp
  from below have "of_int n - 1 / 2 < x / 2 powr of_int (e - 52)"
    by (simp only: pos_less_divide_eq [OF u])
  moreover from above have "x / 2 powr of_int (e - 52) < of_int n + 1 / 2"
    by (simp only: pos_divide_less_eq [OF u])
  ultimately show "\<bar>x / 2 powr of_int (e - 52) - of_int n\<bar> < 1 / 2"
    by (simp only: abs_less_iff) linarith
qed

lemma round64_exact:
  assumes e: "- 1022 \<le> e"
    and lo: "2 powr of_int e \<le> x"
    and hi: "x < 2 powr of_int (e + 1)"
    and x: "x = of_int n * 2 powr of_int (e - 52)"
  shows "round64 x = x"
proof -
  have u: "0 < 2 powr real_of_int (e - 52)" by simp
  have "round64 x = of_int n * 2 powr of_int (e - 52)"
  proof (rule round64_between [OF e lo hi])
    show "(of_int n - 1 / 2) * 2 powr of_int (e - 52) < x"
      unfolding x using u by (simp only: mult_less_cancel_right_pos)
    show "x < (of_int n + 1 / 2) * 2 powr of_int (e - 52)"
      unfolding x using u by (simp only: mult_less_cancel_right_pos)
  qed
  with x show ?thesis by simp
qed

lemma round64_0: "round64 0 = 0"
  by (simp add: round64_def)

lemma round64_1: "round64 1 = 1"
  by (rule round64_exact [of 0 _ "2 ^ 52"]) (simp_all add: powr_neg_numeral)

lemma round64_half: "round64 (1 / 2) = 1 / 2"
  by (rule round64_exact [of "- 1" _ "2 ^ 52"]) (simp_all add: powr_neg_numeral)

lemma round64_quarter: "round64 (1 / 4) = 1 / 4"
  by (rule round64_exact [of "- 2" _ "2 ^ 52"]) (simp_all add: powr_neg_numeral)

lemma round64_sixteenth: "round64 (1 / 16) = 1 / 16"
  by (rule round64_exact [of "- 4" _ "2 ^ 52"]) (simp_all add: powr_neg_numeral)

lemma round64_5_16: "round64 (5 / 16) = 5 / 16"
  by (rule round64_exact [of "- 2" _ "5 * 2 ^ 50"]) (simp_all add: powr_neg_numeral)

lemma round64_3_8: "round64 (3 / 8) = 3 / 8"
  by (rule round64_exact [of "- 2" _ "3 * 2 ^ 51"]) (simp_all add: powr_neg_numeral)

lemmas round64_small =
  round64_0 round64_1 round64_half round64_quarter round64_sixteenth round64_5_16 round64_3_8




lemma round64_sqrt_3_8: "round64 (sqrt (3 / 8)) = 5515760546423086 / 2 ^ 53"
proof -
  have "round64 (sqrt (3 / 8)) = of_int 5515760546423086 * 2 powr of_int (- 1 - 52)"
  proof (rule round64_between)
    show "- 1022 \<le> (- 1::int)" by simp
    show "2 powr of_int (- 1) \<le> sqrt (3 / 8)"
      by (rule real_le_rsqrt) (simp add: powr_neg_numeral power2_eq_square)
    show "sqrt (3 / 8) < 2 powr of_int (- 1 + 1)"
      by (rule real_less_lsqrt) simp_all
    show "(of_int 5515760546423086 - 1 / 2) * 2 powr of_int (- 1 - 52) < sqrt (3 / 8)"
      by (rule real_less_rsqrt) (simp add: powr_neg_numeral power2_eq_square)
    show "sqrt (3 / 8) < (of_int 5515760546423086 + 1 / 2) * 2 powr of_int (- 1 - 52)"
      by (rule real_less_lsqrt) (simp_all add: powr_neg_numeral power2_eq_square)
  qed
  then show ?thesis by (simp add: powr_neg_numeral)
qed

lemma round64_square_3_8:
  "round64 (5515760546423086 / 2 ^ 53 * (5515760546423086 / 2 ^ 53)) = 6755399441055743 / 2 ^ 54"
proof -
  have "round64 (5515760546423086 / 2 ^ 53 * (5515760546423086 / 2 ^ 53)) =
      of_int 6755399441055743 * 2 powr of_int (- 2 - 52)"
    by (rule round64_between) (simp_all add: powr_neg_numeral)
  then show ?thesis by (simp add: powr_neg_numeral)
qed

lemma round64_quotient_3_8:
  "round64 ((3 / 8) / (6755399441055743 / 2 ^ 54)) = 1 + 1 / 2 ^ 52"
proof -
  have "round64 ((3 / 8) / (6755399441055743 / 2 ^ 54)) =
      of_int 4503599627370497 * 2 powr of_int (0 - 52)"
    by (rule round64_between) (simp_all add: powr_neg_numeral)
  then show ?thesis by (simp add: powr_neg_numeral)
qed

section \<open>The similarity in double arithmetic\<close>

lemma ieee_simps:
  "numAdd ieee x y = round64 (x + y)" "numMul ieee x y = round64 (x * y)"
  "numDiv ieee x y = round64 (x / y)" "numSqrt ieee x = round64 (sqrt x)"
  "numLog ieee x = round64 (ln x)"
  by (simp_all add: ieee_def)

lemma corpusDocs_newModel_in:
  "corpusDocs (newModel_in ar d) = map (\<lambda>s. parseTokensStemmed (JString s)) (parseSentences d)"
  by (simp add: newModel_in_def Let_def)

lemma sentences_newModel_in: "sentences (newModel_in ar d) = parseSentences d"
  by (simp add: newModel_in_def Let_def)

text \<open>With one document that holds every token, every IDF is \<open>log(2 / 2) + 1 = 1\<close>.\<close>

lemma calculateIDF_ieee_one:
  assumes "t \<in> set doc"
  shows "calculateIDF_in ieee t [doc] = 1"
  using assms by (simp add: calculateIDF_in_def docFreq_def ieee_simps round64_small)





lemma roundingExample_parse:
  "parseSentences (JString ''a a b c'') = [''a a b c'']"
  "parseTokensStemmed (JString ''a a b c'') = [''a'', ''a'', ''b'', ''c'']"
  "newSet ([''a'', ''a'', ''b'', ''c''] @ [''a'', ''a'', ''b'', ''c'']) = [''a'', ''b'', ''c'']"
  by code_simp+

lemma roundingExample_effIDF:
  "effIDF_in ieee roundingExample ''a'' = 1" "effIDF_in ieee roundingExample ''b'' = 1"
  "effIDF_in ieee roundingExample ''c'' = 1"
  by (simp_all add: roundingExample_def effIDF_in_newModel corpusDocs_newModel_in
      roundingExample_parse calculateIDF_ieee_one)

lemma roundingExample_cosine:
  assumes "idf ''a'' = 1" and "idf ''b'' = 1" and "idf ''c'' = 1"
  shows "cosine_in ieee idf [''a'', ''a'', ''b'', ''c''] [''a'', ''a'', ''b'', ''c''] = 1 + 1 / 2 ^ 52"
proof -
  have tf: "calculateTF_in ieee ''a'' [''a'', ''a'', ''b'', ''c''] = 1 / 2"
    "calculateTF_in ieee ''b'' [''a'', ''a'', ''b'', ''c''] = 1 / 4"
    "calculateTF_in ieee ''c'' [''a'', ''a'', ''b'', ''c''] = 1 / 4"
    by (simp_all add: calculateTF_in_def ieee_simps round64_small)
  have vec: "map (\<lambda>token. numMul ieee (calculateTF_in ieee token [''a'', ''a'', ''b'', ''c'']) (idf token))
      [''a'', ''b'', ''c''] = [1 / 2, 1 / 4, 1 / 4]"
    by (simp add: tf assms ieee_simps round64_small)
  have dot: "dotProduct_in ieee [1 / 2, 1 / 4, 1 / 4] [1 / 2, 1 / 4, 1 / 4] = 3 / 8"
    by (simp add: dotProduct_in_def ieee_simps round64_small)
  have sq: "foldl (\<lambda>sum val. numAdd ieee sum (numMul ieee val val)) 0 [1 / 2, 1 / 4, 1 / 4] = 3 / 8"
    by (simp add: ieee_simps round64_small)
  have mag: "magnitude_in ieee [1 / 2, 1 / 4, 1 / 4] = 5515760546423086 / 2 ^ 53"
    unfolding magnitude_in_def sq by (simp only: ieee_simps round64_sqrt_3_8)
  have nz: "(5515760546423086::real) / 2 ^ 53 \<noteq> 0" by simp
  have q: "numDiv ieee (3 / 8)
      (numMul ieee (5515760546423086 / 2 ^ 53) (5515760546423086 / 2 ^ 53)) = 1 + 1 / 2 ^ 52"
    by (simp only: ieee_simps round64_square_3_8 round64_quotient_3_8)
  show ?thesis
    unfolding cosine_in_def Let_def roundingExample_parse vec dot mag q
    using nz by simp
qed

text \<open>
  Claim C2: the similarity of two strings lies in the interval from 0 to 1. The code leaves
  the interval: on the corpus \<open>a a b c\<close>, in double arithmetic, the similarity of the sentence
  \<open>a a b c\<close> with itself is \<open>1 + 2\<^sup>-\<^sup>5\<^sup>2\<close>, printed as \<open>1.0000000000000002\<close>. The dot product
  is \<open>0.375\<close>, and the product of the two rounded square roots of \<open>0.375\<close> is
  \<open>0.37499999999999994\<close>.
\<close>

theorem similarity_above_one:
  "fst (calculateTFIDFSimilarity_in ieee roundingExample (JString ''a a b c'') (JString ''a a b c'')) =
     1 + 1 / 2 ^ 52"
  by (simp only: similarity_in_fst roundingExample_parse roundingExample_cosine [OF roundingExample_effIDF])

theorem similarity_above_one_witness:
  "\<not> fst (calculateTFIDFSimilarity_in ieee roundingExample (JString ''a a b c'') (JString ''a a b c'')) \<le> 1"
  by (simp add: similarity_above_one)


section \<open>The similarity of a string with itself\<close>



section \<open>The ranking on an example\<close>

lemma rankingExample_parse:
  "parseSentences (JString ''cat dog. cat.'') = [''cat dog'', ''cat'']"
  "parseTokensStemmed (JString ''cat dog'') = [''cat'', ''dog'']"
  "parseTokensStemmed (JString ''cat'') = [''cat'']"
  by code_simp+

lemma rankingExample_sentences: "sentences rankingExample = [''cat dog'', ''cat'']"
  by (simp add: rankingExample_def sentences_newModel_in rankingExample_parse)

lemma rankingExample_corpusDocs: "corpusDocs rankingExample = [[''cat'', ''dog''], [''cat'']]"
  by (simp add: rankingExample_def corpusDocs_newModel_in rankingExample_parse)

lemma rankingExample_effIDF:
  "effIDF rankingExample t = calculateIDF t [[''cat'', ''dog''], [''cat'']]"
proof -
  have "cacheConsistent rankingExample"
    unfolding rankingExample_def newModel_exact by (rule cacheConsistent_newModel)
  then show ?thesis
    by (simp add: effIDF_consistent rankingExample_corpusDocs)
qed

lemma rankingExample_idf:
  "effIDF rankingExample ''cat'' = 1" "1 \<le> effIDF rankingExample ''dog''"
proof -
  show "effIDF rankingExample ''cat'' = 1"
    by (simp add: rankingExample_effIDF calculateIDF_def docFreq_def)
  show "1 \<le> effIDF rankingExample ''dog''"
    unfolding rankingExample_effIDF by (rule calculateIDF_ge_1) simp
qed

lemma rankingExample_scores:
  "fst (calculateTFIDFSimilarity_in exact rankingExample (JString ''cat'') (JString ''cat'')) = 1"
  "0 < fst (calculateTFIDFSimilarity_in exact rankingExample (JString ''cat'') (JString ''cat dog''))"
  "fst (calculateTFIDFSimilarity_in exact rankingExample (JString ''cat'') (JString ''cat dog'')) < 1"
proof -
  let ?idf = "effIDF rankingExample"
  let ?d = "?idf ''dog''"
  have nn: "\<And>t. 0 \<le> ?idf t"
    unfolding rankingExample_effIDF by (rule calculateIDF_nonneg)
  have "cosine ?idf [''cat''] [''cat''] = 1"
    by (rule cosine_self) (simp_all add: rankingExample_idf)
  then show "fst (calculateTFIDFSimilarity_in exact rankingExample (JString ''cat'') (JString ''cat'')) = 1"
    by (simp add: similarity_exact similarity_fst rankingExample_parse)
  have "0 < cosine ?idf [''cat''] [''cat'', ''dog'']"
    by (simp add: cosine_pos_iff [OF nn] rankingExample_idf)
  then show "0 < fst (calculateTFIDFSimilarity_in exact rankingExample (JString ''cat'') (JString ''cat dog''))"
    by (simp add: similarity_exact similarity_fst rankingExample_parse)
  have d: "0 < ?d" using rankingExample_idf(2) by simp
  have tf: "calculateTF ''cat'' [''cat''] = 1" "calculateTF ''dog'' [''cat''] = 0"
    "calculateTF ''cat'' [''cat'', ''dog''] = 1 / 2" "calculateTF ''dog'' [''cat'', ''dog''] = 1 / 2"
    by (simp_all add: calculateTF_def)
  have S: "set [''cat''] \<union> set [''cat'', ''dog''] = {''cat'', ''dog''}" by auto
  have c: "cosine ?idf [''cat''] [''cat'', ''dog''] = (1 / 2) / sqrt (1 / 4 + ?d * ?d / 4)"
  proof -
    have "0 < 1 / 4 + ?d * ?d / 4" using d by (simp add: add_pos_nonneg)
    then have nz: "sqrt (1 / 4 + ?d * ?d / 4) \<noteq> 0" by simp
    have sums: "(\<Sum>t\<in>{''cat'', ''dog''}. f t) = f ''cat'' + f ''dog''" for f :: "string \<Rightarrow> real"
      by simp
    have ne: "[''cat''] \<noteq> []" "[''cat'', ''dog''] \<noteq> []" by simp_all
    note cs = cosine_sum [OF ne, of ?idf, unfolded S sums tf rankingExample_idf(1)]
    from nz show ?thesis
      by (simp add: cs)
  qed
  have "1 / 2 < sqrt (1 / 4 + ?d * ?d / 4)"
    by (rule real_less_rsqrt) (use d in \<open>simp add: power2_eq_square\<close>)
  moreover have sp: "0 < sqrt (1 / 4 + ?d * ?d / 4)"
    using d by (simp add: add_pos_nonneg)
  ultimately have "(1 / 2) / sqrt (1 / 4 + ?d * ?d / 4) < 1"
    by (simp only: pos_divide_less_eq [OF sp] mult_1)
  then show "fst (calculateTFIDFSimilarity_in exact rankingExample (JString ''cat'') (JString ''cat dog'')) < 1"
    by (simp add: similarity_exact similarity_fst rankingExample_parse c)
qed

lemma rankingExample_positiveScores:
  "positiveScores exact rankingExample (JString ''cat'') =
     [(''cat dog'', fst (calculateTFIDFSimilarity_in exact rankingExample (JString ''cat'') (JString ''cat dog''))),
      (''cat'', 1)]"
  by (simp add: positiveScores_def rankingExample_sentences rankingExample_scores)

lemma rankingExample_ranked:
  "fst (rankSentences_in exact rankingExample (JString ''cat'') 0) =
     [(''cat'', 1),
      (''cat dog'', fst (calculateTFIDFSimilarity_in exact rankingExample (JString ''cat'') (JString ''cat dog'')))]"
  using rankingExample_scores(3)
  by (simp add: rankSentences_in_fst rankingExample_positiveScores sortByScore_def)

theorem rankSentences_ranked_witness:
  "sentences rankingExample = [''cat dog'', ''cat''] \<and>
   map fst (positiveScores exact rankingExample (JString ''cat'')) = [''cat dog'', ''cat''] \<and>
   (0::int) \<le> 0 \<and>
   map fst (fst (rankSentences_in exact rankingExample (JString ''cat'') 0)) = [''cat'', ''cat dog''] \<and>
   mset (fst (rankSentences_in exact rankingExample (JString ''cat'') 0)) =
     mset (positiveScores exact rankingExample (JString ''cat'')) \<and>
   (0::int) < 1 \<and>
   length (fst (rankSentences_in exact rankingExample (JString ''cat'') 1)) \<le> nat 1 \<and>
   fst (rankSentences_in exact rankingExample (JString ''cat'') 1) = [(''cat'', 1)]"
proof -
  note zero = rankSentences_ranked [of exact rankingExample "JString ''cat''" 0]
  note one = rankSentences_ranked [of exact rankingExample "JString ''cat''" 1]
  from zero have perm: "mset (fst (rankSentences_in exact rankingExample (JString ''cat'') 0)) =
     mset (positiveScores exact rankingExample (JString ''cat''))"
    by simp
  from one have len: "length (fst (rankSentences_in exact rankingExample (JString ''cat'') 1)) \<le> nat 1"
    and cut: "fst (rankSentences_in exact rankingExample (JString ''cat'') 1) =
      take (nat 1) (fst (rankSentences_in exact rankingExample (JString ''cat'') 0))"
    by simp_all
  from cut have first: "fst (rankSentences_in exact rankingExample (JString ''cat'') 1) = [(''cat'', 1)]"
    by (simp add: rankingExample_ranked)
  from perm len first show ?thesis
    by (simp add: rankingExample_sentences rankingExample_positiveScores rankingExample_ranked)
qed

end
